theory Spec2Isabelle
  imports Main "HOL-Library.Multiset" "HOL-Library.Word" "HOL-Library.AList"
begin

section \<open>Data model of the Pages asset upload\<close>

text \<open>
  The \<open>FileContainer\<close> type of \<open>upload\<close>: the base64 text of the file, its MIME type,
  the size reported by \<open>stat\<close> and the truncated hex digest. Sizes are JavaScript numbers
  holding integers far below \<open>2^53\<close>, so they are modelled as \<open>int\<close>.
\<close>

record FileContainer =
  content :: string
  contentType :: string
  sizeInBytes :: int
  hash :: string

text \<open>
  The four values imported from \<open>./constants\<close>. That module is not part of the sources
  at hand, so the values are parameters of every definition that reads them.
\<close>

record constants =
  BULK_UPLOAD_CONCURRENCY :: nat
  MAX_BUCKET_FILE_COUNT :: nat
  MAX_BUCKET_SIZE :: int
  MAX_UPLOAD_ATTEMPTS :: nat

record bucket =
  files :: "FileContainer list"
  remainingSize :: int

section \<open>Dedup filter and batch planner\<close>

text \<open>
  \<open>files.filter((file) => missingHashes.includes(file.hash)).sort((a, b) => b.sizeInBytes - a.sizeInBytes)\<close>.
  The sort of V8 is stable; \<open>sort_key\<close> is a stable insertion sort, here on the negated size.
\<close>

definition sortedFiles :: "FileContainer list \<Rightarrow> string list \<Rightarrow> FileContainer list" where
  "sortedFiles fs missingHashes =
     sort_key (\<lambda>file. - sizeInBytes file) (filter (\<lambda>file. hash file \<in> set missingHashes) fs)"

definition initial_buckets :: "constants \<Rightarrow> bucket list" where
  "initial_buckets c =
     replicate (BULK_UPLOAD_CONCURRENCY c) \<lparr>files = [], remainingSize = MAX_BUCKET_SIZE c\<rparr>"

text \<open>
  The inner \<open>for (let i = 0; i < buckets.length; i++)\<close> loop: the index of the first
  bucket, scanning from the rotating offset, that has room for the file; \<open>None\<close> when the
  loop ends with \<open>inserted\<close> still false.
\<close>

function find_bucket :: "constants \<Rightarrow> bucket list \<Rightarrow> nat \<Rightarrow> FileContainer \<Rightarrow> nat \<Rightarrow> nat option" where
  "find_bucket c buckets bucketOffset file i =
     (if i < length buckets then
        (let j = (i + bucketOffset) mod length buckets;
             b = buckets ! j
         in if remainingSize b \<ge> sizeInBytes file \<and> length (files b) < MAX_BUCKET_FILE_COUNT c
            then Some j
            else find_bucket c buckets bucketOffset file (i + 1))
      else None)"
  by pat_completeness auto
termination
  by (relation "measure (\<lambda>(c, buckets, bucketOffset, file, i). length buckets - i)") auto

declare find_bucket.simps [simp del]

definition place_file :: "constants \<Rightarrow> bucket list \<Rightarrow> nat \<Rightarrow> FileContainer \<Rightarrow> bucket list" where
  "place_file c buckets bucketOffset file =
     (case find_bucket c buckets bucketOffset file 0 of
        Some j \<Rightarrow>
          buckets[j := \<lparr>files = files (buckets ! j) @ [file],
                        remainingSize = remainingSize (buckets ! j) - sizeInBytes file\<rparr>]
      | None \<Rightarrow>
          buckets @ [\<lparr>files = [file], remainingSize = MAX_BUCKET_SIZE c - sizeInBytes file\<rparr>])"

fun fill_buckets :: "constants \<Rightarrow> bucket list \<Rightarrow> nat \<Rightarrow> FileContainer list \<Rightarrow> bucket list" where
  "fill_buckets c buckets bucketOffset [] = buckets"
| "fill_buckets c buckets bucketOffset (file # rest) =
     fill_buckets c (place_file c buckets bucketOffset file) (bucketOffset + 1) rest"

definition plan_buckets :: "constants \<Rightarrow> FileContainer list \<Rightarrow> bucket list" where
  "plan_buckets c fs = fill_buckets c (initial_buckets c) 0 fs"

text \<open>The upload loop skips empty buckets: \<open>if (bucket.files.length === 0) continue\<close>.\<close>

definition batches :: "constants \<Rightarrow> FileContainer list \<Rightarrow> bucket list" where
  "batches c fs = filter (\<lambda>b. length (files b) \<noteq> 0) (plan_buckets c fs)"

section \<open>Paths, as \<open>node:path\<close> computes them on POSIX\<close>

text \<open>
  \<open>String.prototype.split\<close> with a one-character separator and
  \<open>Array.prototype.join\<close>. Splitting the empty string gives one empty segment.
\<close>

definition sep :: char where
  "sep = CHR ''/''"

fun split_str :: "char \<Rightarrow> string \<Rightarrow> string list" where
  "split_str s [] = [[]]"
| "split_str s (ch # rest) =
     (if ch = s then [] # split_str s rest
      else (case split_str s rest of
              seg # segs \<Rightarrow> (ch # seg) # segs
            | [] \<Rightarrow> [[ch]]))"

fun join_str :: "string \<Rightarrow> string list \<Rightarrow> string" where
  "join_str s [] = []"
| "join_str s [x] = x"
| "join_str s (x # y # rest) = x @ s @ join_str s (y # rest)"

text \<open>
  \<open>normalizeString\<close> of Node's \<open>path\<close> module, segment by segment: empty and \<open>.\<close>
  segments vanish, \<open>..\<close> removes the segment before it, or is kept at the front of a
  relative path.
\<close>

fun normalizeString :: "bool \<Rightarrow> string list \<Rightarrow> string list \<Rightarrow> string list" where
  "normalizeString allowAboveRoot res [] = res"
| "normalizeString allowAboveRoot res (seg # rest) =
     (if seg = [] \<or> seg = ''.'' then normalizeString allowAboveRoot res rest
      else if seg = ''..'' then
        (if res \<noteq> [] \<and> last res \<noteq> ''..''
         then normalizeString allowAboveRoot (butlast res) rest
         else if allowAboveRoot then normalizeString allowAboveRoot (res @ [''..'']) rest
         else normalizeString allowAboveRoot res rest)
      else normalizeString allowAboveRoot (res @ [seg]) rest)"

definition normalize :: "string \<Rightarrow> string" where
  "normalize path =
     (if path = [] then ''.''
      else
        let isAbsolute = (hd path = CHR ''/'');
            trailingSeparator = (last path = CHR ''/'');
            p = join_str ''/'' (normalizeString (\<not> isAbsolute) [] (split_str (CHR ''/'') path))
        in if p = [] then (if isAbsolute then ''/'' else if trailingSeparator then ''./'' else ''.'')
           else (if isAbsolute then ''/'' else []) @ p @ (if trailingSeparator then ''/'' else []))"

text \<open>\<open>path.join\<close> of two arguments: empty arguments are left out, the rest is normalized.\<close>

definition join :: "string \<Rightarrow> string \<Rightarrow> string" where
  "join a b =
     (if a = [] \<and> b = [] then ''.''
      else if a = [] then normalize b
      else if b = [] then normalize a
      else normalize (a @ ''/'' @ b))"

text \<open>
  \<open>path.basename\<close> is the last non-empty segment. \<open>path.extname\<close> is the part of the
  basename from its last dot on, and empty when there is no dot, when the last dot is the
  first character, or when the basename is \<open>..\<close>.
\<close>

definition basename :: "string \<Rightarrow> string" where
  "basename path =
     (case filter (\<lambda>seg. seg \<noteq> []) (split_str (CHR ''/'') path) of
        [] \<Rightarrow> []
      | seg # segs \<Rightarrow> last (seg # segs))"

definition extname :: "string \<Rightarrow> string" where
  "extname path =
     (let b = basename path in
      if CHR ''.'' \<notin> set b then []
      else
        let ext = CHR ''.'' # rev (takeWhile (\<lambda>ch. ch \<noteq> CHR ''.'') (rev b))
        in if length ext = length b \<or> b = ''..'' then [] else ext)"

section \<open>Buffers: base64 and hex text\<close>

definition base64_digit :: "nat \<Rightarrow> char" where
  "base64_digit n =
     ''ABCDEFGHIJKLMNOPQRSTUVWXYZabcdefghijklmnopqrstuvwxyz0123456789+/'' ! n"

fun toString_base64 :: "8 word list \<Rightarrow> string" where
  "toString_base64 [] = []"
| "toString_base64 [a] =
     (let n = unat a * 65536
      in [base64_digit (n div 262144), base64_digit (n div 4096 mod 64), CHR ''='', CHR ''=''])"
| "toString_base64 [a, b] =
     (let n = unat a * 65536 + unat b * 256
      in [base64_digit (n div 262144), base64_digit (n div 4096 mod 64),
          base64_digit (n div 64 mod 64), CHR ''=''])"
| "toString_base64 (a # b # c # rest) =
     (let n = unat a * 65536 + unat b * 256 + unat c
      in [base64_digit (n div 262144), base64_digit (n div 4096 mod 64),
          base64_digit (n div 64 mod 64), base64_digit (n mod 64)] @ toString_base64 rest)"

definition hex_digit :: "nat \<Rightarrow> char" where
  "hex_digit n = ''0123456789abcdef'' ! n"

definition toString_hex :: "8 word list \<Rightarrow> string" where
  "toString_hex bytes =
     concat (map (\<lambda>b. [hex_digit (unat b div 16), hex_digit (unat b mod 16)]) bytes)"

section \<open>The file tree and the indexer\<close>

text \<open>
  A node of the file tree as the three calls of \<open>walk\<close> see it. A regular file has the
  size \<open>stat\<close> reports and the bytes \<open>readFile\<close> returns, a directory has its entries in
  \<open>readdir\<close> order, and a symbolic link has the node it points to (\<open>None\<close> when the
  target is missing).

  The source calls \<open>stat\<close>, \<open>readdir\<close> and \<open>readFile\<close> of \<open>node:fs/promises\<close>. All
  three follow symbolic links; Node documents \<open>Stats.isSymbolicLink()\<close> as valid only
  on the result of \<open>lstat\<close>, and on the result of \<open>stat\<close> it is false. The size of a
  directory is not read by the source.
\<close>

datatype fsnode =
  RegularFile int "8 word list"
| Directory "(string \<times> fsnode) list"
| SymbolicLink "fsnode option"

record Stats =
  isSymbolicLink :: bool
  isDirectory :: bool
  st_size :: int

fun stat :: "fsnode \<Rightarrow> Stats option" where
  "stat (RegularFile sz bytes) = Some \<lparr>isSymbolicLink = False, isDirectory = False, st_size = sz\<rparr>"
| "stat (Directory entries) = Some \<lparr>isSymbolicLink = False, isDirectory = True, st_size = 0\<rparr>"
| "stat (SymbolicLink None) = None"
| "stat (SymbolicLink (Some target)) = stat target"

fun readdir :: "fsnode \<Rightarrow> (string \<times> fsnode) list option" where
  "readdir (RegularFile sz bytes) = None"
| "readdir (Directory entries) = Some entries"
| "readdir (SymbolicLink None) = None"
| "readdir (SymbolicLink (Some target)) = readdir target"

fun readFile :: "fsnode \<Rightarrow> 8 word list option" where
  "readFile (RegularFile sz bytes) = Some bytes"
| "readFile (Directory entries) = None"
| "readFile (SymbolicLink None) = None"
| "readFile (SymbolicLink (Some target)) = readFile target"

fun node_size :: "fsnode \<Rightarrow> nat" where
  "node_size (RegularFile sz bytes) = 1"
| "node_size (Directory entries) = Suc (sum_list (map (\<lambda>(name, child). Suc (node_size child)) entries))"
| "node_size (SymbolicLink None) = 1"
| "node_size (SymbolicLink (Some target)) = Suc (node_size target)"

text \<open>
  The two imported functions of the indexer that are not part of the sources: the BLAKE3
  hash of a string and the MIME lookup (\<open>None\<close> for \<open>null\<close>).
\<close>

record env =
  blake3_hash :: "string \<Rightarrow> 8 word list"
  getType :: "string \<Rightarrow> string option"

datatype error =
  FsError string
| FileTooLarge string int
| TooManyFiles
| ApiFailure "int option"
| UploadFailed int

definition IGNORE_LIST :: "string list" where
  "IGNORE_LIST = [''_worker.js'', ''_redirects'', ''_headers'', ''.DS_Store'', ''node_modules'', ''.git'']"

text \<open>
  The \<open>Map<string, FileContainer>\<close> in insertion order. \<open>Map.prototype.set\<close> replaces
  the value of a key that is present, in place, and appends a new key.
\<close>

type_synonym fileMap = "(string \<times> FileContainer) list"

definition Map_set :: "string \<Rightarrow> FileContainer \<Rightarrow> fileMap \<Rightarrow> fileMap" where
  "Map_set name v fm = AList.update name v fm"

definition fingerprint :: "env \<Rightarrow> string \<Rightarrow> string \<Rightarrow> string" where
  "fingerprint e base64Content extension =
     take 32 (toString_hex (blake3_hash e (base64Content @ extension)))"

text \<open>\<open>getType(name) || "application/octet-stream"\<close>: \<open>null\<close> and the empty string are falsy.\<close>

definition contentType_of :: "env \<Rightarrow> string \<Rightarrow> string" where
  "contentType_of e name =
     (case getType e name of
        None \<Rightarrow> ''application/octet-stream''
      | Some t \<Rightarrow> if t = [] then ''application/octet-stream'' else t)"

text \<open>
  A callback of \<open>files.map(async (file) => ...)\<close> with what it closes over: the
  directory, the entry, the node of the entry and the depth.
\<close>

type_synonym callback = "string \<times> string \<times> fsnode \<times> nat"

definition callbacks :: "string \<Rightarrow> (string \<times> fsnode) list \<Rightarrow> nat \<Rightarrow> callback list" where
  "callbacks dir entries depth = map (\<lambda>(file, child). (dir, file, child, depth)) entries"

text \<open>
  The beginning of \<open>walk\<close>, up to its \<open>Promise.all\<close>: the directory is read and one
  callback is made for each entry.
\<close>

definition walk_callbacks :: "string \<Rightarrow> fsnode \<Rightarrow> nat \<Rightarrow> error + callback list" where
  "walk_callbacks dir node depth =
     (case readdir node of
        None \<Rightarrow> Inl (FsError dir)
      | Some entries \<Rightarrow> Inr (callbacks dir entries depth))"

text \<open>
  One callback, run to its end. For a directory the nested call of \<open>walk\<close> hands its own
  callbacks to a \<open>Promise.all\<close> of its own; they are returned here, to run together with
  the callbacks that are still pending. For a file the record is set in the map.
\<close>

definition visit :: "env \<Rightarrow> string \<Rightarrow> string \<Rightarrow> fsnode \<Rightarrow> fileMap \<Rightarrow> nat \<Rightarrow> error + callback list \<times> fileMap" where
  "visit e dir file child fm depth =
     (let filepath = join dir file in
      case stat child of
        None \<Rightarrow> Inl (FsError filepath)
      | Some filestat \<Rightarrow>
          if file \<in> set IGNORE_LIST then Inr ([], fm)
          else if isSymbolicLink filestat then Inr ([], fm)
          else if isDirectory filestat then
            (case walk_callbacks filepath child (depth + 1) of
               Inl err \<Rightarrow> Inl err
             | Inr inner \<Rightarrow> Inr (inner, fm))
          else
            let name = (if depth \<noteq> 0 then join_str ''/'' (drop 1 (split_str sep filepath))
                        else file)
            in (case readFile child of
                  None \<Rightarrow> Inl (FsError filepath)
                | Some fileContent \<Rightarrow>
                    (let base64Content = toString_base64 fileContent;
                         extension = drop 1 (extname (basename name))
                     in if st_size filestat > 25 * 1024 * 1024
                        then Inl (FileTooLarge name (st_size filestat))
                        else Inr ([], Map_set name
                               \<lparr>content = base64Content,
                                contentType = contentType_of e name,
                                sizeInBytes = st_size filestat,
                                hash = fingerprint e base64Content extension\<rparr> fm))))"

text \<open>
  The callbacks of \<open>Promise.all\<close> run concurrently, those of a nested \<open>walk\<close> together
  with those of the walks around it: which of the pending callbacks comes to its end next
  depends on the timing of the file system. That choice is the schedule, a parameter: it
  is given the pending callbacks and answers with the position of the next one (taken
  modulo their number). All callbacks share the one map. The first callback that fails
  rejects every \<open>Promise.all\<close> around it, and its error is the error of the walk.
\<close>

type_synonym schedule = "callback list \<Rightarrow> nat"

definition pool_size :: "callback list \<Rightarrow> nat" where
  "pool_size pending = sum_list (map (\<lambda>(dir, file, child, depth). node_size child) pending)"

function Promise_all :: "env \<Rightarrow> schedule \<Rightarrow> callback list \<Rightarrow> fileMap \<Rightarrow> error + fileMap" where
  "Promise_all e sched pending fm =
     (if pending = [] then Inr fm
      else
        let i = sched pending mod length pending in
        case pending ! i of
          (dir, file, child, depth) \<Rightarrow>
            (case visit e dir file child fm depth of
               Inl err \<Rightarrow> Inl err
             | Inr (inner, fm') \<Rightarrow>
                 Promise_all e sched (take i pending @ drop (Suc i) pending @ inner) fm'))"
  by pat_completeness auto
termination
proof (relation "measure (\<lambda>(e, sched, pending, fm). pool_size pending)", goal_cases)
  case 1
  show ?case by simp
next
  case (2 e sched pending fm i dir rest f rest' child depth r inner fm')
  have rd: "readdir n = Some es \<Longrightarrow>
          sum_list (map (\<lambda>(name, child). Suc (node_size child)) es) < node_size n" for n es
    by (induction n rule: readdir.induct) auto
  have le: "sum_list (map (\<lambda>(dir, file, child, depth). node_size child) (callbacks d es k))
          \<le> sum_list (map (\<lambda>(name, child). Suc (node_size child)) es)" for d es k
    by (induction es) (auto simp: callbacks_def)
  have sub: "readdir n = Some es \<Longrightarrow> pool_size (callbacks d es k) < node_size n" for n es d k
    using rd[of n es] le[of d es k] by (simp add: pool_size_def)
  have pos: "0 < node_size n" for n
    by (induction n rule: node_size.induct) auto
  have v: "visit e dir f child fm depth = Inr (inner, fm')"
    using 2 by simp
  have inner_lt: "pool_size inner < node_size child"
  proof (cases "inner = []")
    case True
    then show ?thesis using pos[of child] by (simp add: pool_size_def)
  next
    case False
    with v obtain es where "readdir child = Some es" "inner = callbacks (join dir f) es (depth + 1)"
      by (auto simp: visit_def walk_callbacks_def Let_def
             split: option.splits if_splits sum.splits)
    then show ?thesis using sub by simp
  qed
  have i: "i < length pending"
    using 2 by simp
  have nth: "pending ! i = (dir, f, child, depth)"
    using 2 by simp
  have split: "pending = take i pending @ (dir, f, child, depth) # drop (Suc i) pending"
    using id_take_nth_drop[OF i] nth by simp
  have "pool_size pending
          = pool_size (take i pending) + node_size child + pool_size (drop (Suc i) pending)"
    by (subst split) (simp add: pool_size_def)
  with inner_lt show ?case
    by (simp add: pool_size_def)
qed

declare Promise_all.simps [simp del]

text \<open>\<open>walk\<close>, as \<open>upload\<close> calls it.\<close>

definition walk :: "env \<Rightarrow> schedule \<Rightarrow> string \<Rightarrow> fsnode \<Rightarrow> fileMap \<Rightarrow> nat \<Rightarrow> error + fileMap" where
  "walk e sched dir node fm depth =
     (case walk_callbacks dir node depth of
        Inl err \<Rightarrow> Inl err
      | Inr pending \<Rightarrow> Promise_all e sched pending fm)"

section \<open>The remote store\<close>

text \<open>
  What \<open>fetchResult\<close> throws: a value whose \<open>code\<close> property may be absent.
\<close>

datatype api_error = ApiError (code: "int option")

record UploadPayloadFile =
  key :: string
  "value" :: string
  metadata_contentType :: string
  base64 :: bool

datatype request =
  UploadToken
| CheckMissing string "string list"
| AssetsUpload string "UploadPayloadFile list"
| UpsertHashes string "string list"

text \<open>
  What a run does that can be observed: a request (with the bearer token it carries), a
  timer of so many milliseconds, and the warning of the finalizer.
\<close>

datatype event = Request request | Timeout nat | Warn

text \<open>
  The remote store answers each request as it likes; its answer may depend on everything
  that happened before. An answer is the result of \<open>fetchResult\<close> or the error it throws.
\<close>

record network =
  upload_token :: "event list \<Rightarrow> api_error + string"
  check_missing :: "event list \<Rightarrow> string \<Rightarrow> string list \<Rightarrow> api_error + string list"
  assets_upload :: "event list \<Rightarrow> string \<Rightarrow> UploadPayloadFile list \<Rightarrow> api_error + unit"
  upsert_hashes :: "event list \<Rightarrow> string \<Rightarrow> string list \<Rightarrow> api_error + unit"

text \<open>The mutable variable \<open>jwt\<close> of \<open>upload\<close>, and the events so far.\<close>

record state =
  jwt :: string
  trace :: "event list"

definition log_event :: "event \<Rightarrow> state \<Rightarrow> state" where
  "log_event ev s = s\<lparr>trace := trace s @ [ev]\<rparr>"

definition fetchJwt :: "network \<Rightarrow> state \<Rightarrow> (api_error + string) \<times> state" where
  "fetchJwt net s = (upload_token net (trace s), log_event (Request UploadToken) s)"

definition fetch_check_missing :: "network \<Rightarrow> string list \<Rightarrow> state \<Rightarrow> (api_error + string list) \<times> state" where
  "fetch_check_missing net hashes s =
     (check_missing net (trace s) (jwt s) hashes, log_event (Request (CheckMissing (jwt s) hashes)) s)"

definition fetch_upload :: "network \<Rightarrow> UploadPayloadFile list \<Rightarrow> state \<Rightarrow> (api_error + unit) \<times> state" where
  "fetch_upload net payload s =
     (assets_upload net (trace s) (jwt s) payload, log_event (Request (AssetsUpload (jwt s) payload)) s)"

definition fetch_upsert_hashes :: "network \<Rightarrow> string list \<Rightarrow> state \<Rightarrow> (api_error + unit) \<times> state" where
  "fetch_upsert_hashes net hashes s =
     (upsert_hashes net (trace s) (jwt s) hashes, log_event (Request (UpsertHashes (jwt s) hashes)) s)"

definition setTimeout :: "nat \<Rightarrow> state \<Rightarrow> state" where
  "setTimeout ms s = log_event (Timeout ms) s"

section \<open>The upload scheduler\<close>

definition payload_of :: "bucket \<Rightarrow> UploadPayloadFile list" where
  "payload_of b =
     map (\<lambda>file. \<lparr>key = hash file, value = content file,
                   metadata_contentType = contentType file, base64 = True\<rparr>) (files b)"

text \<open>
  \<open>doUpload\<close>, with the counter \<open>attempts\<close> of its bucket as an argument and in the
  result. A failure of \<open>fetchJwt\<close> inside the \<open>catch\<close> block leaves \<open>doUpload\<close>.
\<close>

function doUpload ::
  "constants \<Rightarrow> network \<Rightarrow> UploadPayloadFile list \<Rightarrow> nat \<Rightarrow> state \<Rightarrow> (api_error + unit) \<times> nat \<times> state"
  where
  "doUpload c net payload attempts s =
     (case fetch_upload net payload s of
        (Inr u, s1) \<Rightarrow> (Inr u, attempts, s1)
      | (Inl err, s1) \<Rightarrow>
          if attempts < MAX_UPLOAD_ATTEMPTS c then
            (let s2 = setTimeout (attempts * 1000) s1;
                 attempts' = attempts + 1
             in if code err = Some 8000013 then
                  (case fetchJwt net s2 of
                     (Inl err', s3) \<Rightarrow> (Inl err', attempts', s3)
                   | (Inr token, s3) \<Rightarrow> doUpload c net payload attempts' (s3\<lparr>jwt := token\<rparr>))
                else doUpload c net payload attempts' s2)
          else (Inl err, attempts, s1))"
  by pat_completeness auto
termination
  by (relation "measure (\<lambda>(c, net, payload, attempts, s). MAX_UPLOAD_ATTEMPTS c - attempts)") auto

declare doUpload.simps [simp del]

text \<open>\<open>error.code || 1\<close>: an absent code and the code \<open>0\<close> are falsy.\<close>

definition fatal_code :: "api_error \<Rightarrow> int" where
  "fatal_code err = (case code err of None \<Rightarrow> 1 | Some n \<Rightarrow> if n = 0 then 1 else n)"

text \<open>
  The task that \<open>queue.add\<close> is given for a bucket: \<open>doUpload\<close> with its two handlers.
  When \<open>doUpload\<close> fails the task rejects with a \<open>FatalError\<close> that carries the code. The
  progress counter is not represented.
\<close>

type_synonym task = "state \<Rightarrow> (error + unit) \<times> state"

definition upload_task :: "constants \<Rightarrow> network \<Rightarrow> bucket \<Rightarrow> task" where
  "upload_task c net b s =
     (case doUpload c net (payload_of b) 0 s of
        (Inr u, attempts, s') \<Rightarrow> (Inr u, s')
      | (Inl err, attempts, s') \<Rightarrow> (Inl (UploadFailed (fatal_code err)), s'))"

text \<open>
  The tasks of a run: one for each bucket that is not empty, in the order of the buckets.
\<close>

definition upload_tasks :: "constants \<Rightarrow> network \<Rightarrow> bucket list \<Rightarrow> task list" where
  "upload_tasks c net buckets =
     map (upload_task c net) (filter (\<lambda>b. length (files b) \<noteq> 0) buckets)"

text \<open>
  \<open>PQueue\<close> is a library that is not part of the sources. It starts the tasks it was
  given, so many at a time as its concurrency allows, goes on after a task has rejected,
  and \<open>onIdle\<close> resolves when none is left. How the steps of the tasks interleave is its
  choice and that of the network: the queue is a parameter, which is given the concurrency,
  the tasks and the state before, and answers with the state in which \<open>onIdle\<close> resolves.
  The promise of \<open>queue.add\<close> is neither awaited nor caught by \<open>upload\<close>: a task that
  rejects does not change what \<open>upload\<close> does after \<open>onIdle\<close>.
\<close>

type_synonym pqueue = "nat \<Rightarrow> task list \<Rightarrow> state \<Rightarrow> state"

section \<open>The finalizer and the whole run\<close>

definition doUpsertHashes :: "network \<Rightarrow> FileContainer list \<Rightarrow> state \<Rightarrow> (api_error + unit) \<times> state" where
  "doUpsertHashes net fs s =
     (case fetch_upsert_hashes net (map hash fs) s of
        (Inr u, s1) \<Rightarrow> (Inr u, s1)
      | (Inl err, s1) \<Rightarrow>
          (let s2 = setTimeout 1000 s1
           in if code err = Some 8000013 then
                (case fetchJwt net s2 of
                   (Inl err', s3) \<Rightarrow> (Inl err', s3)
                 | (Inr token, s3) \<Rightarrow> fetch_upsert_hashes net (map hash fs) (s3\<lparr>jwt := token\<rparr>))
              else fetch_upsert_hashes net (map hash fs) s2))"

text \<open>
  \<open>Object.fromEntries\<close> over the entries of the map, each key prefixed with a slash. A
  later entry with the same key would replace an earlier one.
\<close>

definition manifest_of :: "fileMap \<Rightarrow> (string \<rightharpoonup> string)" where
  "manifest_of fm =
     fold (\<lambda>(k, v) obj. obj(k \<mapsto> v)) (map (\<lambda>(fileName, file). (''/'' @ fileName, hash file)) fm) Map.empty"

text \<open>The end of \<open>upload\<close>: the commit call in its \<open>try\<close>, the warning, the returned object.\<close>

definition finalize :: "network \<Rightarrow> fileMap \<Rightarrow> state \<Rightarrow> (string \<rightharpoonup> string) \<times> state" where
  "finalize net fm s =
     (case doUpsertHashes net (map snd fm) s of
        (Inr u, s') \<Rightarrow> (manifest_of fm, s')
      | (Inl err, s') \<Rightarrow> (manifest_of fm, log_event Warn s'))"

text \<open>
  \<open>upload\<close> after the walk, from the size check on. The result is the returned object or
  the error thrown, with the events of the run. What the runtime does with the rejection
  of a task that nothing handles is outside \<open>upload\<close>.
\<close>

definition upload_files :: "constants \<Rightarrow> pqueue \<Rightarrow> network \<Rightarrow> fileMap \<Rightarrow> (error + (string \<rightharpoonup> string)) \<times> event list" where
  "upload_files c queue net fileMap =
     (if length fileMap > 20000 then (Inl TooManyFiles, [])
      else
        let fs = map snd fileMap in
        case fetchJwt net \<lparr>jwt = [], trace = []\<rparr> of
          (Inl err, s0) \<Rightarrow> (Inl (ApiFailure (code err)), trace s0)
        | (Inr token, s0) \<Rightarrow>
            (case fetch_check_missing net (map hash fs) (s0\<lparr>jwt := token\<rparr>) of
               (Inl err, s1) \<Rightarrow> (Inl (ApiFailure (code err)), trace s1)
             | (Inr missingHashes, s1) \<Rightarrow>
                 (let buckets = plan_buckets c (sortedFiles fs missingHashes);
                      s2 = queue (BULK_UPLOAD_CONCURRENCY c) (upload_tasks c net buckets) s1
                  in case finalize net fileMap s2 of
                       (manifest, s3) \<Rightarrow> (Inr manifest, trace s3))))"

definition upload :: "constants \<Rightarrow> env \<Rightarrow> schedule \<Rightarrow> pqueue \<Rightarrow> network \<Rightarrow> string \<Rightarrow> fsnode \<Rightarrow> (error + (string \<rightharpoonup> string)) \<times> event list" where
  "upload c e sched queue net directory root =
     (case walk e sched directory root [] 0 of
        Inl err \<Rightarrow> (Inl err, [])
      | Inr fileMap \<Rightarrow> upload_files c queue net fileMap)"

section \<open>Observations on a run\<close>

text \<open>The files of a list of buckets, as a multiset, and the invariant of a bucket.\<close>

definition files_of :: "bucket list \<Rightarrow> FileContainer multiset" where
  "files_of bs = mset (concat (map files bs))"

definition bucket_inv :: "constants \<Rightarrow> bucket \<Rightarrow> bool" where
  "bucket_inv c b \<longleftrightarrow>
     remainingSize b + sum_list (map sizeInBytes (files b)) = MAX_BUCKET_SIZE c \<and>
     0 \<le> remainingSize b \<and> length (files b) \<le> MAX_BUCKET_FILE_COUNT c"

text \<open>The timers of a trace, and its upload, token and commit requests.\<close>

fun timeouts :: "event list \<Rightarrow> nat list" where
  "timeouts [] = []"
| "timeouts (Timeout ms # evs) = ms # timeouts evs"
| "timeouts (ev # evs) = timeouts evs"


fun upsert_requests :: "event list \<Rightarrow> nat" where
  "upsert_requests [] = 0"
| "upsert_requests (Request (UpsertHashes token hashes) # evs) = Suc (upsert_requests evs)"
| "upsert_requests (ev # evs) = upsert_requests evs"

text \<open>
  The variable \<open>name\<close> of \<open>walk\<close> for the entry \<open>file\<close> of the directory \<open>dir\<close>, and
  the variable \<open>extension\<close>.
\<close>

definition name_of :: "string \<Rightarrow> string \<Rightarrow> nat \<Rightarrow> string" where
  "name_of dir file depth =
     (if depth \<noteq> 0 then join_str ''/'' (drop 1 (split_str sep (join dir file))) else file)"

definition extension_of :: "string \<Rightarrow> string" where
  "extension_of name = drop 1 (extname (basename name))"

text \<open>The commit request of a run, with the token it carries.\<close>

definition commit_request :: "fileMap \<Rightarrow> string \<Rightarrow> event" where
  "commit_request fm token = Request (UpsertHashes token (map hash (map snd fm)))"

section \<open>Sample inputs\<close>

text \<open>
  Values for the four constants, a hash and a MIME lookup to run the definitions on. The
  sample hash returns the first sixteen bytes of its input, so that different inputs of
  the samples have different digests.
\<close>

definition sample_constants :: constants where
  "sample_constants =
     \<lparr>BULK_UPLOAD_CONCURRENCY = 3, MAX_BUCKET_FILE_COUNT = 5000,
      MAX_BUCKET_SIZE = 50 * 1024 * 1024, MAX_UPLOAD_ATTEMPTS = 5\<rparr>"

definition sample_env :: env where
  "sample_env =
     \<lparr>blake3_hash = (\<lambda>s. map (\<lambda>ch. of_nat (of_char ch)) (take 16 s)),
      getType = (\<lambda>name. if extname name = ''.txt'' then Some ''text/plain'' else None)\<rparr>"

definition sample_file :: "string \<Rightarrow> int \<Rightarrow> FileContainer" where
  "sample_file h n = \<lparr>content = ''YQ=='', contentType = ''text/plain'', sizeInBytes = n, hash = h\<rparr>"

text \<open>
  A remote store that answers every request successfully and reports the given hashes as
  missing; one whose uploads fail with the given error until the given number of upload
  requests has been made; and one whose commit calls always fail with the given error.
\<close>

definition network_ok :: "string list \<Rightarrow> network" where
  "network_ok missingHashes =
     \<lparr>upload_token = (\<lambda>tr. Inr ''token''),
      check_missing = (\<lambda>tr token hashes. Inr missingHashes),
      assets_upload = (\<lambda>tr token payload. Inr ()),
      upsert_hashes = (\<lambda>tr token hashes. Inr ())\<rparr>"


definition network_no_commit :: "api_error \<Rightarrow> network" where
  "network_no_commit err =
     \<lparr>upload_token = (\<lambda>tr. Inr ''fresh''),
      check_missing = (\<lambda>tr token hashes. Inr hashes),
      assets_upload = (\<lambda>tr token payload. Inr ()),
      upsert_hashes = (\<lambda>tr token hashes. Inl err)\<rparr>"

text \<open>A small site: two text files under the root, one of them in a subdirectory.\<close>

definition sample_site :: fsnode where
  "sample_site =
     Directory [(''a.txt'', RegularFile 3 [0x61, 0x62, 0x63]),
                (''.git'', Directory [(''HEAD'', RegularFile 1 [0x0A])]),
                (''img'', Directory [(''b.txt'', RegularFile 3 [0x61, 0x62, 0x63])])]"


text \<open>A remote store whose commit calls fail with the expiry code and that issues no new token.\<close>

definition network_no_refresh :: network where
  "network_no_refresh =
     \<lparr>upload_token = (\<lambda>tr. Inl (ApiError None)),
      check_missing = (\<lambda>tr token hashes. Inr hashes),
      assets_upload = (\<lambda>tr token payload. Inr ()),
      upsert_hashes = (\<lambda>tr token hashes. Inl (ApiError (Some 8000013)))\<rparr>"


text \<open>
  The schedule in which the callback that has been pending longest always ends next, and a
  queue that runs its tasks one at a time, in the order they were added.
\<close>

definition first_come :: schedule where
  "first_come pending = 0"

definition queue_in_turn :: pqueue where
  "queue_in_turn concurrency tasks s = fold (\<lambda>t s'. snd (t s')) tasks s"



section \<open>The batch planner produces a partition within the ceilings\<close>


lemma find_bucket_Some:
  "find_bucket c buckets off f i = Some j \<Longrightarrow>
     j < length buckets \<and> remainingSize (buckets ! j) \<ge> sizeInBytes f \<and>
     length (files (buckets ! j)) < MAX_BUCKET_FILE_COUNT c"
proof (induction c buckets off f i rule: find_bucket.induct)
  case (1 c buckets bucketOffset f i)
  show ?case
  proof (cases "i < length buckets")
    case True
    then have "(i + bucketOffset) mod length buckets < length buckets"
      by (intro mod_less_divisor) auto
    then show ?thesis using 1 True
      by (auto simp: find_bucket.simps[of c buckets bucketOffset f i] Let_def split: if_splits)
  next
    case False
    then show ?thesis using 1 by (simp add: find_bucket.simps[of c buckets bucketOffset f i])
  qed
qed

lemma files_of_update:
  "j < length bs \<Longrightarrow> files b' = files (bs ! j) @ [f] \<Longrightarrow>
   files_of (bs[j := b']) = add_mset f (files_of bs)"
  unfolding files_of_def
proof (induction bs arbitrary: j)
  case Nil then show ?case by simp
next
  case (Cons a bs)
  then show ?case by (cases j) auto
qed

lemma files_of_place: "files_of (place_file c bs off f) = add_mset f (files_of bs)"
proof (cases "find_bucket c bs off f 0")
  case None
  then show ?thesis by (simp add: place_file_def files_of_def)
next
  case (Some j)
  then have "j < length bs" using find_bucket_Some by blast
  then show ?thesis using Some by (simp add: place_file_def files_of_update)
qed

lemma files_of_fill: "files_of (fill_buckets c bs off fs) = mset fs + files_of bs"
  by (induction fs arbitrary: bs off) (simp_all add: files_of_place)

lemma bucket_inv_place:
  assumes inv: "\<forall>b \<in> set bs. bucket_inv c b"
    and sz: "sizeInBytes f \<le> MAX_BUCKET_SIZE c" and cnt: "1 \<le> MAX_BUCKET_FILE_COUNT c"
  shows "\<forall>b \<in> set (place_file c bs off f). bucket_inv c b"
proof (cases "find_bucket c bs off f 0")
  case None
  then show ?thesis using inv sz cnt by (auto simp: place_file_def bucket_inv_def)
next
  case (Some j)
  then have j: "j < length bs" "sizeInBytes f \<le> remainingSize (bs ! j)"
    "length (files (bs ! j)) < MAX_BUCKET_FILE_COUNT c"
    using find_bucket_Some by blast+
  from j(1) inv have old: "bucket_inv c (bs ! j)" by simp
  have new: "bucket_inv c \<lparr>files = files (bs ! j) @ [f],
      remainingSize = remainingSize (bs ! j) - sizeInBytes f\<rparr>"
    using old j by (simp add: bucket_inv_def)
  have "set (place_file c bs off f) \<subseteq>
     insert \<lparr>files = files (bs ! j) @ [f], remainingSize = remainingSize (bs ! j) - sizeInBytes f\<rparr> (set bs)"
    using Some by (simp add: place_file_def set_update_subset_insert)
  then show ?thesis using new inv by blast
qed

lemma bucket_inv_fill:
  "\<forall>b \<in> set bs. bucket_inv c b \<Longrightarrow> \<forall>f \<in> set fs. sizeInBytes f \<le> MAX_BUCKET_SIZE c \<Longrightarrow>
   1 \<le> MAX_BUCKET_FILE_COUNT c \<Longrightarrow> \<forall>b \<in> set (fill_buckets c bs off fs). bucket_inv c b"
proof (induction fs arbitrary: bs off)
  case Nil then show ?case by simp
next
  case (Cons f fs)
  have "\<forall>b \<in> set (place_file c bs off f). bucket_inv c b"
    using Cons.prems by (intro bucket_inv_place) simp_all
  then show ?case using Cons by simp
qed

lemma files_of_filter: "files_of (filter (\<lambda>b. files b \<noteq> []) bs) = files_of bs"
  unfolding files_of_def by (induction bs) auto

lemma sortedFiles_mset: "mset (sortedFiles fs m) = filter_mset (\<lambda>f. hash f \<in> set m) (mset fs)"
  by (simp add: sortedFiles_def)

lemma sortedFiles_set: "set (sortedFiles fs m) = {f \<in> set fs. hash f \<in> set m}"
  by (simp add: sortedFiles_def)

text \<open>
  Claim C1. Whatever the sizes of the files, as long as none exceeds the 25 MiB the indexer
  admits, the non-empty buckets of the planner hold every file of the upload set exactly
  once (as multisets, the files of the batches are the upload set), and every batch keeps
  both ceilings: the sizes of its files sum to at most \<open>MAX_BUCKET_SIZE\<close> and it has
  at most \<open>MAX_BUCKET_FILE_COUNT\<close> files. The two constants are parameters; the
  statement needs a bucket to have room for one file of the largest admitted size.
\<close>

theorem planner_partition_within_ceilings:
  assumes "\<forall>f \<in> set fs. sizeInBytes f \<le> 25 * 1024 * 1024"
    and "25 * 1024 * 1024 \<le> MAX_BUCKET_SIZE c" and "1 \<le> MAX_BUCKET_FILE_COUNT c"
  shows "mset (concat (map files (batches c (sortedFiles fs missingHashes)))) =
           mset (sortedFiles fs missingHashes) \<and>
         (\<forall>b \<in> set (batches c (sortedFiles fs missingHashes)).
             sum_list (map sizeInBytes (files b)) \<le> MAX_BUCKET_SIZE c \<and>
             length (files b) \<le> MAX_BUCKET_FILE_COUNT c)"
proof -
  let ?up = "sortedFiles fs missingHashes"
  have init: "\<forall>b \<in> set (initial_buckets c). bucket_inv c b"
    using assms(2) by (auto simp: initial_buckets_def bucket_inv_def)
  have "files_of (initial_buckets c) = {#}"
    by (simp add: initial_buckets_def files_of_def)
  then have part: "files_of (batches c ?up) = mset ?up"
    by (simp add: batches_def plan_buckets_def files_of_filter files_of_fill)
  have "\<forall>f \<in> set ?up. sizeInBytes f \<le> MAX_BUCKET_SIZE c"
    using assms(1,2) by (fastforce simp: sortedFiles_set)
  then have "\<forall>b \<in> set (plan_buckets c ?up). bucket_inv c b"
    unfolding plan_buckets_def using init assms(3) by (intro bucket_inv_fill) simp_all
  then have "\<forall>b \<in> set (batches c ?up). bucket_inv c b"
    by (simp add: batches_def)
  then show ?thesis using part by (auto simp: bucket_inv_def files_of_def)
qed

theorem planner_partition_within_ceilings_witness:
  "list_all (\<lambda>f. sizeInBytes f \<le> 25 * 1024 * 1024)
     [sample_file ''aa'' 10, sample_file ''bb'' 26214400, sample_file ''cc'' 26214400,
      sample_file ''dd'' 7] \<and>
   25 * 1024 * 1024 \<le> MAX_BUCKET_SIZE sample_constants \<and>
   1 \<le> MAX_BUCKET_FILE_COUNT sample_constants \<and>
   mset (concat (map files (batches sample_constants
       (sortedFiles [sample_file ''aa'' 10, sample_file ''bb'' 26214400, sample_file ''cc'' 26214400,
                     sample_file ''dd'' 7] [''aa'', ''bb'', ''cc''])))) =
     {#sample_file ''aa'' 10, sample_file ''bb'' 26214400, sample_file ''cc'' 26214400#} \<and>
   list_all (\<lambda>b. sum_list (map sizeInBytes (files b)) \<le> MAX_BUCKET_SIZE sample_constants \<and>
                  length (files b) \<le> MAX_BUCKET_FILE_COUNT sample_constants)
     (batches sample_constants
       (sortedFiles [sample_file ''aa'' 10, sample_file ''bb'' 26214400, sample_file ''cc'' 26214400,
                     sample_file ''dd'' 7] [''aa'', ''bb'', ''cc'']))"
proof -
  have h1: "\<forall>f \<in> set [sample_file ''aa'' 10, sample_file ''bb'' 26214400, sample_file ''cc'' 26214400,
                   sample_file ''dd'' 7]. sizeInBytes f \<le> 25 * 1024 * 1024"
    by (simp add: sample_file_def)
  have h2: "25 * 1024 * 1024 \<le> MAX_BUCKET_SIZE sample_constants"
    by (simp add: sample_constants_def)
  have h3: "1 \<le> MAX_BUCKET_FILE_COUNT sample_constants"
    by (simp add: sample_constants_def)
  have up: "mset (sortedFiles [sample_file ''aa'' 10, sample_file ''bb'' 26214400,
                 sample_file ''cc'' 26214400, sample_file ''dd'' 7] [''aa'', ''bb'', ''cc'']) =
     {#sample_file ''aa'' 10, sample_file ''bb'' 26214400, sample_file ''cc'' 26214400#}"
    by (simp add: sortedFiles_mset sample_file_def)
  from planner_partition_within_ceilings[OF h1 h2 h3, of "[''aa'', ''bb'', ''cc'']"] h1 h2 h3 up
  show ?thesis unfolding list_all_iff by simp
qed

section \<open>Facts about the indexer\<close>

text \<open>
  How the pending callbacks are run: an empty pool is done, and otherwise the callback the
  schedule names is run and leaves the pool. Under the schedule \<open>first_come\<close> that is
  the first one.
\<close>

lemma Promise_all_Nil: "Promise_all e sched [] fm = Inr fm"
  by (simp add: Promise_all.simps)

lemma Promise_all_step:
  assumes "pending \<noteq> []" and "pending ! (sched pending mod length pending) = (dir, f, child, depth)"
  shows "Promise_all e sched pending fm =
     (case visit e dir f child fm depth of
        Inl err \<Rightarrow> Inl err
      | Inr (inner, fm') \<Rightarrow>
          Promise_all e sched (take (sched pending mod length pending) pending
                               @ drop (Suc (sched pending mod length pending)) pending @ inner) fm')"
  using assms by (subst Promise_all.simps) (simp add: Let_def)

lemma Promise_all_first_come:
  "Promise_all e first_come ((dir, f, child, depth) # pending) fm =
     (case visit e dir f child fm depth of
        Inl err \<Rightarrow> Inl err
      | Inr (inner, fm') \<Rightarrow> Promise_all e first_come (pending @ inner) fm')"
  by (subst Promise_all.simps) (simp add: Let_def first_come_def split: sum.splits)

lemma Promise_all_invariant:
  assumes step: "\<And>e dir f child depth fm inner fm'.
      P e fm \<Longrightarrow> visit e dir f child fm depth = Inr (inner, fm') \<Longrightarrow> P e fm'"
  shows "P e fm \<Longrightarrow> Promise_all e sched pending fm = Inr fm'' \<Longrightarrow> P e fm''"
proof (induction e sched pending fm rule: Promise_all.induct)
  case (1 e sched pending fm)
  show ?case
  proof (cases "pending = []")
    case True
    with "1.prems" show ?thesis by (simp add: Promise_all_Nil)
  next
    case False
    obtain dir f child depth where nth: "pending ! (sched pending mod length pending) = (dir, f, child, depth)"
      by (cases "pending ! (sched pending mod length pending)") auto
    from "1.prems"(2) obtain inner fm1 where v: "visit e dir f child fm depth = Inr (inner, fm1)"
      and r: "Promise_all e sched (take (sched pending mod length pending) pending
                               @ drop (Suc (sched pending mod length pending)) pending @ inner) fm1 = Inr fm''"
      unfolding Promise_all_step[of pending sched dir f child depth e fm, OF False nth]
      by (auto split: sum.splits)
    have "P e fm1" by (rule step[OF "1.prems"(1) v])
    from "1.IH"[OF False refl nth[symmetric] refl refl v refl this r] show ?thesis .
  qed
qed

text \<open>A pool of one callback and a pool of two, under any schedule.\<close>

lemma Promise_all_one:
  "Promise_all e sched [(dir, f, child, depth)] fm =
     (case visit e dir f child fm depth of
        Inl err \<Rightarrow> Inl err
      | Inr (inner, fm') \<Rightarrow> Promise_all e sched inner fm')"
  by (subst Promise_all.simps) (simp add: Let_def split: sum.splits)

lemma Promise_all_two:
  "Promise_all e sched [(dir, f, child, depth), (dir', f', child', depth')] fm =
     (if sched [(dir, f, child, depth), (dir', f', child', depth')] mod 2 = 0 then
        (case visit e dir f child fm depth of
           Inl err \<Rightarrow> Inl err
         | Inr (inner, fm') \<Rightarrow> Promise_all e sched ((dir', f', child', depth') # inner) fm')
      else
        (case visit e dir' f' child' fm depth' of
           Inl err \<Rightarrow> Inl err
         | Inr (inner, fm') \<Rightarrow> Promise_all e sched ((dir, f, child, depth) # inner) fm'))"
proof -
  let ?pending = "[(dir, f, child, depth), (dir', f', child', depth')]"
  have l: "length ?pending = 2" by simp
  show ?thesis
  proof (cases "sched ?pending mod 2 = 0")
    case True
    then have i: "sched ?pending mod length ?pending = 0" unfolding l .
    have "?pending ! (sched ?pending mod length ?pending) = (dir, f, child, depth)"
      unfolding i by simp
    from Promise_all_step[of ?pending sched dir f child depth e fm, OF _ this] True
    show ?thesis unfolding i by (simp split: sum.splits)
  next
    case False
    then have i: "sched ?pending mod length ?pending = 1" unfolding l by presburger
    have "?pending ! (sched ?pending mod length ?pending) = (dir', f', child', depth')"
      unfolding i by simp
    from Promise_all_step[of ?pending sched dir' f' child' depth' e fm, OF _ this] False
    show ?thesis unfolding i by (simp split: sum.splits)
  qed
qed

text \<open>The keys of the map stay distinct, as \<open>Map.prototype.set\<close> replaces a present key.\<close>

lemma visit_distinct:
  "distinct (map fst fm) \<Longrightarrow> visit e dir f child fm depth = Inr (inner, fm') \<Longrightarrow>
     distinct (map fst fm')"
  by (auto simp: visit_def Let_def Map_set_def distinct_update
           split: option.splits if_splits sum.splits)

lemma walk_distinct:
  assumes "distinct (map fst fm)" and "walk e sched dir node fm depth = Inr fm'"
  shows "distinct (map fst fm')"
proof -
  from assms(2) obtain pending where "Promise_all e sched pending fm = Inr fm'"
    by (auto simp: walk_def split: sum.splits)
  from Promise_all_invariant[where P="\<lambda>e fm. distinct (map fst fm)", OF visit_distinct assms(1) this]
  show ?thesis .
qed

text \<open>
  The result of \<open>stat\<close> never describes a symbolic link, so the test for one in \<open>walk\<close>
  never succeeds. An entry that is not a directory, can be read and is not ignored is
  either refused for its size or stored under its name.
\<close>

lemma stat_never_symlink: "stat node = Some st \<Longrightarrow> \<not> isSymbolicLink st"
  by (induction node rule: stat.induct) auto

lemma visit_regular:
  assumes "stat child = Some st" and "\<not> isDirectory st" and "readFile child = Some bytes"
    and "f \<notin> set IGNORE_LIST"
  shows "visit e dir f child fm depth =
     (if st_size st > 25 * 1024 * 1024
      then Inl (FileTooLarge (name_of dir f depth) (st_size st))
      else Inr ([], Map_set (name_of dir f depth)
             \<lparr>content = toString_base64 bytes,
              contentType = contentType_of e (name_of dir f depth),
              sizeInBytes = st_size st,
              hash = fingerprint e (toString_base64 bytes) (extension_of (name_of dir f depth))\<rparr> fm))"
  using assms stat_never_symlink[OF assms(1)]
  by (simp add: visit_def Let_def name_of_def extension_of_def)

lemma set_Map_set: "set (Map_set k v fm) \<subseteq> insert (k, v) (set fm)"
  unfolding Map_set_def by (induction fm) auto

lemma visit_hashes:
  assumes "\<forall>(name, r) \<in> set fm. hash r = fingerprint e (content r) (extension_of name)"
    and "visit e dir f child fm depth = Inr (inner, fm')"
  shows "\<forall>(name, r) \<in> set fm'. hash r = fingerprint e (content r) (extension_of name)"
proof (cases "fm' = fm")
  case True
  with assms(1) show ?thesis by simp
next
  case False
  with assms(2) obtain v where "fm' = Map_set (name_of dir f depth) v fm"
    and "hash v = fingerprint e (content v) (extension_of (name_of dir f depth))"
    by (auto simp: visit_def Let_def name_of_def extension_of_def
             split: option.splits if_splits sum.splits)
  then show ?thesis using assms(1) set_Map_set[of "name_of dir f depth" v fm] by auto
qed

lemma walk_hashes:
  assumes "\<forall>(name, r) \<in> set fm. hash r = fingerprint e (content r) (extension_of name)"
    and "walk e sched dir node fm depth = Inr fm'"
  shows "\<forall>(name, r) \<in> set fm'. hash r = fingerprint e (content r) (extension_of name)"
proof -
  from assms(2) obtain pending where "Promise_all e sched pending fm = Inr fm'"
    by (auto simp: walk_def split: sum.splits)
  from Promise_all_invariant[where
         P="\<lambda>e fm. \<forall>(name, r) \<in> set fm. hash r = fingerprint e (content r) (extension_of name)",
         OF visit_hashes assms(1) this]
  show ?thesis .
qed

lemma keys_Map_set:
  "map fst (Map_set k v fm) = (if k \<in> set (map fst fm) then map fst fm else map fst fm @ [k])"
  unfolding Map_set_def by (induction fm) auto

text \<open>How \<open>walk\<close> and \<open>visit\<close> treat each kind of node.\<close>

lemma walk_Directory:
  "walk e sched dir (Directory entries) fm depth = Promise_all e sched (callbacks dir entries depth) fm"
  by (simp add: walk_def walk_callbacks_def)

lemma visit_Directory:
  "f \<notin> set IGNORE_LIST \<Longrightarrow>
     visit e dir f (Directory entries) fm depth = Inr (callbacks (join dir f) entries (Suc depth), fm)"
  by (simp add: visit_def walk_callbacks_def)

lemma visit_ignored:
  "f \<in> set IGNORE_LIST \<Longrightarrow> stat child = Some st \<Longrightarrow> visit e dir f child fm depth = Inr ([], fm)"
  by (simp add: visit_def)

lemma visit_RegularFile:
  "f \<notin> set IGNORE_LIST \<Longrightarrow> sz \<le> 25 * 1024 * 1024 \<Longrightarrow>
     visit e dir f (RegularFile sz bytes) fm depth =
       Inr ([], Map_set (name_of dir f depth)
             \<lparr>content = toString_base64 bytes,
              contentType = contentType_of e (name_of dir f depth),
              sizeInBytes = sz,
              hash = fingerprint e (toString_base64 bytes) (extension_of (name_of dir f depth))\<rparr> fm)"
  by (simp add: visit_regular[where st="\<lparr>isSymbolicLink = False, isDirectory = False, st_size = sz\<rparr>" and bytes=bytes])

lemma visit_SymbolicLink:
  "visit e dir f (SymbolicLink (Some target)) fm depth = visit e dir f target fm depth"
  by (auto simp: visit_def walk_callbacks_def Let_def split: option.splits)

text \<open>
  A pool of callbacks for small regular files of the root with distinct names, none
  ignored: whatever the schedule, each of them adds one entry.
\<close>

lemma Promise_all_flat:
  assumes "\<forall>(d, n, child, k) \<in> set pending.
             n \<notin> set IGNORE_LIST \<and> k = 0 \<and> (\<exists>bytes. child = RegularFile 0 bytes)"
    and "distinct (map fst fm @ map (\<lambda>(d, n, child, k). n) pending)"
  shows "\<exists>fm'. Promise_all e sched pending fm = Inr fm' \<and> length fm' = length fm + length pending"
  using assms
proof (induction "length pending" arbitrary: pending fm)
  case 0
  then show ?case by (simp add: Promise_all_Nil)
next
  case (Suc m)
  let ?i = "sched pending mod length pending"
  let ?rest = "take ?i pending @ drop (Suc ?i) pending"
  from Suc.hyps(2) have ne: "pending \<noteq> []" by auto
  then have i: "?i < length pending" by simp
  obtain d n child k where nth: "pending ! ?i = (d, n, child, k)"
    by (cases "pending ! ?i") auto
  have mem: "(d, n, child, k) \<in> set pending"
    using nth_mem[OF i] nth by simp
  from Suc.prems(1) mem obtain bytes where c: "child = RegularFile 0 bytes" and k: "k = 0"
    and ni: "n \<notin> set IGNORE_LIST"
    by auto
  let ?fm1 = "Map_set n \<lparr>content = toString_base64 bytes, contentType = contentType_of e n,
            sizeInBytes = 0, hash = fingerprint e (toString_base64 bytes) (extension_of n)\<rparr> fm"
  have v: "visit e d n child fm k = Inr ([], ?fm1)"
    using ni by (simp add: c k visit_RegularFile name_of_def)
  have split: "pending = take ?i pending @ (d, n, child, k) # drop (Suc ?i) pending"
    using id_take_nth_drop[OF i] nth by simp
  have names: "map (\<lambda>(d, n, child, k). n) pending
      = map (\<lambda>(d, n, child, k). n) (take ?i pending) @ n # map (\<lambda>(d, n, child, k). n) (drop (Suc ?i) pending)"
    by (subst split) simp
  have fresh: "n \<notin> set (map fst fm)"
    using Suc.prems(2) unfolding names by auto
  have k1: "map fst ?fm1 = map fst fm @ [n]"
    using fresh by (simp add: keys_Map_set)
  have d1: "distinct (map fst ?fm1 @ map (\<lambda>(d, n, child, k). n) ?rest)"
    using Suc.prems(2) unfolding names k1 by auto
  have sub: "set ?rest \<subseteq> set pending"
    by (auto dest: in_set_takeD in_set_dropD)
  have a1: "\<forall>(d, n, child, k) \<in> set ?rest.
             n \<notin> set IGNORE_LIST \<and> k = 0 \<and> (\<exists>bytes. child = RegularFile 0 bytes)"
    using Suc.prems(1) sub by blast
  have len: "length ?rest = m"
    using Suc.hyps(2) i by simp
  from Suc.hyps(1)[OF len[symmetric] a1 d1]
  obtain fm' where r: "Promise_all e sched ?rest ?fm1 = Inr fm'"
    and l: "length fm' = length ?fm1 + length ?rest"
    by blast
  have l1: "length ?fm1 = Suc (length fm)"
    using k1 by (metis length_append_singleton length_map)
  have "Promise_all e sched pending fm = Inr fm'"
    unfolding Promise_all_step[of pending sched d n child k e fm, OF ne nth]
    using v r by simp
  moreover have "length fm' = length fm + length pending"
    using l l1 len Suc.hyps(2) by simp
  ultimately show ?case by blast
qed

text \<open>A directory of any number of empty files, named \<open>a\<close>, \<open>aa\<close>, \<open>aaa\<close> and so on.\<close>

lemma many_names_distinct: "distinct (map (\<lambda>n. replicate (Suc n) (CHR ''a'')) [0..<k])"
proof -
  have "inj (\<lambda>n. replicate (Suc n) (CHR ''a''))"
    by (rule injI) (metis length_replicate nat.inject)
  then show ?thesis by (simp add: distinct_map inj_on_def)
qed

lemma keys_many:
  "map fst (map (\<lambda>n. (replicate (Suc n) (CHR ''a''), RegularFile 0 [])) [0..<k]) =
   map (\<lambda>n. replicate (Suc n) (CHR ''a'')) [0..<k]"
  by (simp only: map_map comp_def fst_conv)

lemma many_keys_distinct: "distinct (map fst ([] :: fileMap) @ map fst (map (\<lambda>n. (replicate (Suc n) (CHR ''a''), RegularFile 0 [])) [0..<k]))"
  unfolding keys_many using many_names_distinct[of k] by (simp only: list.map append_Nil)



lemma many_names_not_ignored: "replicate (Suc n) (CHR ''a'') \<notin> set IGNORE_LIST"
  by (simp add: IGNORE_LIST_def)


lemma many_callbacks:
  "\<forall>(d, n, child, j) \<in> set (callbacks dir (map (\<lambda>n. (replicate (Suc n) (CHR ''a''), RegularFile 0 [])) [0..<k]) 0).
      n \<notin> set IGNORE_LIST \<and> j = 0 \<and> (\<exists>bytes. child = RegularFile 0 bytes)"
proof (intro ballI)
  fix x assume "x \<in> set (callbacks dir (map (\<lambda>n. (replicate (Suc n) (CHR ''a''), RegularFile 0 [])) [0..<k]) 0)"
  then obtain n where "x = (dir, replicate (Suc n) (CHR ''a''), RegularFile 0 [], 0)"
    unfolding callbacks_def by (auto simp del: replicate_Suc)
  then show "case x of (d, n, child, j) \<Rightarrow> n \<notin> set IGNORE_LIST \<and> j = 0 \<and> (\<exists>bytes. child = RegularFile 0 bytes)"
    using many_names_not_ignored[of n] by (simp del: replicate_Suc)
qed

lemma callbacks_names: "map (\<lambda>(d, n, child, k). n) (callbacks dir entries depth) = map fst entries"
  unfolding callbacks_def by (induction entries) auto

lemma length_callbacks: "length (callbacks dir entries depth) = length entries"
  unfolding callbacks_def by simp

lemma walk_many_files:
  "\<exists>fileMap. walk e sched dir (Directory (map (\<lambda>n. (replicate (Suc n) (CHR ''a''), RegularFile 0 [])) [0..<k])) [] 0 = Inr fileMap
      \<and> length fileMap = k"
proof -
  let ?entries = "map (\<lambda>n. (replicate (Suc n) (CHR ''a''), RegularFile 0 [])) [0..<k]"
  have d: "distinct (map fst ([] :: fileMap) @ map (\<lambda>(d, n, child, k). n) (callbacks dir ?entries 0))"
    unfolding callbacks_names by (rule many_keys_distinct)
  from Promise_all_flat[OF many_callbacks[of dir k] d, where e=e and sched=sched]
  obtain fm' where both: "Promise_all e sched (callbacks dir ?entries 0) [] = Inr fm' \<and>
      length fm' = length ([] :: fileMap) + length (callbacks dir ?entries 0)" ..
  from both have w: "Promise_all e sched (callbacks dir ?entries 0) [] = Inr fm'" by (rule conjunct1)
  from both have m: "length fm' = length ([] :: fileMap) + length (callbacks dir ?entries 0)"
    by (rule conjunct2)
  have "length fm' = length ([] :: fileMap) + length (callbacks dir ?entries 0)" by (rule m)
  also have "\<dots> = k"
    by (simp only: length_callbacks list.size add_0 length_map length_upt minus_nat.diff_0)
  finally have l: "length fm' = k" .
  have "walk e sched dir (Directory ?entries) [] 0 = Promise_all e sched (callbacks dir ?entries 0) []"
    by (rule walk_Directory)
  with w have "walk e sched dir (Directory ?entries) [] 0 = Inr fm'" by (simp only:)
  with l show ?thesis by (intro exI[of _ fm'] conjI)
qed

text \<open>
  The index of the sample site when every callback ends in the order it was started: the
  ignored directory is left out.
\<close>

lemma walk_sample_site:
  "walk sample_env first_come ''site'' sample_site [] 0 =
     Inr [(''a.txt'', \<lparr>content = ''YWJj'', contentType = ''text/plain'', sizeInBytes = 3, hash = ''59574a6a747874''\<rparr>),
          (''img/b.txt'', \<lparr>content = ''YWJj'', contentType = ''text/plain'', sizeInBytes = 3, hash = ''59574a6a747874''\<rparr>)]"
proof -
  have i: "''a.txt'' \<notin> set IGNORE_LIST" "''img'' \<notin> set IGNORE_LIST" "''b.txt'' \<notin> set IGNORE_LIST"
    "''.git'' \<in> set IGNORE_LIST"
    by (simp_all add: IGNORE_LIST_def)
  have g: "visit sample_env ''site'' ''.git'' (Directory [(''HEAD'', RegularFile 1 [0x0A])]) fm 0 = Inr ([], fm)" for fm
    using i(4) by (rule visit_ignored) simp
  have j: "join ''site'' ''img'' = ''site/img''"
    by (simp add: join_def normalize_def)
  have n: "name_of ''site'' ''a.txt'' 0 = ''a.txt''" "name_of ''site/img'' ''b.txt'' (Suc 0) = ''img/b.txt''"
    by (simp_all add: name_of_def join_def normalize_def sep_def)
  have x: "extension_of ''a.txt'' = ''txt''" "extension_of ''img/b.txt'' = ''txt''"
    by (simp_all add: extension_of_def extname_def basename_def)
  have c: "contentType_of sample_env ''a.txt'' = ''text/plain''"
    "contentType_of sample_env ''img/b.txt'' = ''text/plain''"
    by (simp_all add: contentType_of_def sample_env_def extname_def basename_def)
  have b: "toString_base64 [0x61, 0x62, 0x63] = ''YWJj''"
    by (simp add: base64_digit_def)
  have h: "fingerprint sample_env ''YWJj'' ''txt'' = ''59574a6a747874''"
    by (simp add: fingerprint_def sample_env_def toString_hex_def hex_digit_def)
  show ?thesis
    by (simp add: sample_site_def walk_Directory callbacks_def Promise_all_first_come Promise_all_Nil
          visit_Directory visit_RegularFile g i j n x c b h
          Map_set_def del: toString_base64.simps)
qed

section \<open>Facts about the retry loop of a batch\<close>

lemma timeouts_append: "timeouts (xs @ ys) = timeouts xs @ timeouts ys"
  by (induction xs rule: timeouts.induct) simp_all


lemma upsert_requests_append: "upsert_requests (xs @ ys) = upsert_requests xs + upsert_requests ys"
  by (induction xs rule: upsert_requests.induct) simp_all






lemma doUpload_refresh_fails:
  assumes "assets_upload net (trace s) (jwt s) payload = Inl err"
    and "a < MAX_UPLOAD_ATTEMPTS c" and "code err = Some 8000013"
    and "upload_token net (trace s @ [Request (AssetsUpload (jwt s) payload), Timeout (a * 1000)]) = Inl err'"
  shows "doUpload c net payload a s =
     (Inl err', Suc a,
      s\<lparr>trace := trace s @ [Request (AssetsUpload (jwt s) payload), Timeout (a * 1000), Request UploadToken]\<rparr>)"
  using assms
  by (subst doUpload.simps) (simp add: fetch_upload_def setTimeout_def log_event_def fetchJwt_def)


lemma doUpload_succeeds:
  assumes "assets_upload net (trace s) (jwt s) payload = Inr u"
  shows "doUpload c net payload a s =
     (Inr u, a, s\<lparr>trace := trace s @ [Request (AssetsUpload (jwt s) payload)]\<rparr>)"
  using assms
  by (subst doUpload.simps) (simp add: fetch_upload_def log_event_def)



section \<open>Runs that reach the finalizer\<close>

text \<open>
  When the token request and the missing-hashes request succeed, the run returns the
  manifest, whatever the queue did and whatever the commit requests answer.
\<close>

lemma finalize_result: "fst (finalize net fm s) = manifest_of fm"
  by (simp add: finalize_def split: prod.splits sum.splits)

lemma upload_files_reaches_finalizer:
  assumes tok: "upload_token net [] = Inr token"
    and chk: "check_missing net [Request UploadToken] token (map hash (map snd fm)) = Inr missingHashes"
    and len: "length fm \<le> 20000"
  shows "fst (upload_files c queue net fm) = Inr (manifest_of fm)"
proof -
  let ?s0 = "\<lparr>jwt = [], trace = [Request UploadToken]\<rparr>"
  let ?s1 = "\<lparr>jwt = token,
             trace = [Request UploadToken, Request (CheckMissing token (map hash (map snd fm)))]\<rparr>"
  have j: "fetchJwt net \<lparr>jwt = [], trace = []\<rparr> = (Inr token, ?s0)"
    using tok by (simp add: fetchJwt_def log_event_def)
  have m: "fetch_check_missing net (map hash (map snd fm)) \<lparr>jwt = token, trace = [Request UploadToken]\<rparr> =
      (Inr missingHashes, ?s1)"
    using chk by (simp add: fetch_check_missing_def log_event_def)
  show ?thesis
    using len
    by (auto simp: upload_files_def j m Let_def split: prod.splits simp del: map_map)
       (metis finalize_result fst_conv)
qed

lemma upload_files_ok:
  assumes "length fm \<le> 20000"
  shows "fst (upload_files c queue (network_ok ms) fm) = Inr (manifest_of fm)"
  using assms by (intro upload_files_reaches_finalizer[where token="''token''" and missingHashes=ms])
    (simp_all add: network_ok_def)

section \<open>The dedup filter goes by fingerprint\<close>

lemma files_of_batches: "files_of (batches c fs) = mset fs"
proof -
  have "files_of (initial_buckets c) = {#}"
    by (simp add: initial_buckets_def files_of_def)
  then show ?thesis
    by (simp add: batches_def plan_buckets_def files_of_filter files_of_fill)
qed

lemma payload_keys: "mset (map key (concat (map payload_of bs))) = image_mset hash (files_of bs)"
  by (induction bs) (simp_all add: files_of_def payload_of_def comp_def)

lemma two_entries_mset:
  assumes "distinct (map fst fm)" "(p, r1) \<in> set fm" "(q, r2) \<in> set fm" "p \<noteq> q"
  shows "{#r1, r2#} \<subseteq># mset (map snd fm)"
proof -
  have "{#(p, r1), (q, r2)#} \<subseteq># mset fm"
  proof -
    have "mset [(p, r1), (q, r2)] = mset_set {(p, r1), (q, r2)}"
      using assms(4) by simp
    also have "\<dots> \<subseteq># mset_set (set fm)"
      using assms(2,3) by (intro subset_imp_msubset_mset_set) auto
    also have "\<dots> \<subseteq># mset fm"
      by (metis mset_set_set distinct_remdups mset_remdups_subset_eq set_remdups)
    finally show ?thesis by simp
  qed
  then have "image_mset snd {#(p, r1), (q, r2)#} \<subseteq># image_mset snd (mset fm)"
    by (rule image_mset_subseteq_mono)
  then show ?thesis by simp
qed

text \<open>
  Claim C10. The upload set is the part of the index whose hash occurs in the answer of
  the missing-hashes request: every record is kept as often as it occurs in the index when
  its hash is in the answer, and not at all otherwise. For two different paths whose
  records have the same hash, both records are in the upload set, and the payloads of
  the batches hold their common key at least twice, when the hash is in the answer; and
  neither record is in the upload set, nor the key in any payload, when it is not.
\<close>

theorem dedup_filter_is_per_fingerprint:
  assumes "distinct (map fst fileMap)"
    and "(p, r1) \<in> set fileMap" and "(q, r2) \<in> set fileMap"
    and "p \<noteq> q" and "hash r1 = hash r2"
  shows "(\<forall>f. count (mset (sortedFiles (map snd fileMap) missingHashes)) f =
              (if hash f \<in> set missingHashes then count (mset (map snd fileMap)) f else 0)) \<and>
         (hash r1 \<in> set missingHashes \<longrightarrow>
           {#r1, r2#} \<subseteq># mset (sortedFiles (map snd fileMap) missingHashes) \<and>
           2 \<le> count (mset (map key (concat (map payload_of
                  (batches c (sortedFiles (map snd fileMap) missingHashes)))))) (hash r1)) \<and>
         (hash r1 \<notin> set missingHashes \<longrightarrow>
           r1 \<notin> set (sortedFiles (map snd fileMap) missingHashes) \<and>
           r2 \<notin> set (sortedFiles (map snd fileMap) missingHashes) \<and>
           hash r1 \<notin> set (map key (concat (map payload_of
                  (batches c (sortedFiles (map snd fileMap) missingHashes))))))"
proof -
  let ?fs = "map snd fileMap"
  let ?up = "sortedFiles ?fs missingHashes"
  let ?keys = "map key (concat (map payload_of (batches c ?up)))"
  have keys: "mset ?keys = image_mset hash (mset ?up)"
    by (simp only: payload_keys files_of_batches)
  have kept: "\<forall>f. count (mset ?up) f = (if hash f \<in> set missingHashes then count (mset ?fs) f else 0)"
    by (simp add: sortedFiles_mset)
  have both: "{#r1, r2#} \<subseteq># mset ?fs"
    using assms(1-4) by (rule two_entries_mset)
  have missing: "hash r1 \<in> set missingHashes \<longrightarrow>
           {#r1, r2#} \<subseteq># mset ?up \<and> 2 \<le> count (mset ?keys) (hash r1)"
  proof
    assume m: "hash r1 \<in> set missingHashes"
    have "filter_mset (\<lambda>f. hash f \<in> set missingHashes) {#r1, r2#} \<subseteq># mset ?up"
      unfolding sortedFiles_mset using both by (rule multiset_filter_mono)
    then have sub: "{#r1, r2#} \<subseteq># mset ?up"
      using m assms(5) by simp
    then have "image_mset hash {#r1, r2#} \<subseteq># mset ?keys"
      unfolding keys by (rule image_mset_subseteq_mono)
    then have "count (image_mset hash {#r1, r2#}) (hash r1) \<le> count (mset ?keys) (hash r1)"
      by (rule mset_subset_eq_count)
    then have "2 \<le> count (mset ?keys) (hash r1)"
      using assms(5) by simp
    with sub show "{#r1, r2#} \<subseteq># mset ?up \<and> 2 \<le> count (mset ?keys) (hash r1)" by simp
  qed
  have present: "hash r1 \<notin> set missingHashes \<longrightarrow>
           r1 \<notin> set ?up \<and> r2 \<notin> set ?up \<and> hash r1 \<notin> set ?keys"
  proof
    assume m: "hash r1 \<notin> set missingHashes"
    have "set ?keys = hash ` set ?up"
      by (metis keys set_mset_mset set_image_mset)
    then show "r1 \<notin> set ?up \<and> r2 \<notin> set ?up \<and> hash r1 \<notin> set ?keys"
      using m assms(5) by (auto simp: sortedFiles_set)
  qed
  from kept missing present show ?thesis by (intro conjI)
qed

theorem dedup_filter_is_per_fingerprint_witness:
  "distinct (map fst [(''a.txt'', sample_file ''aa'' 3), (''img/b.txt'', sample_file ''aa'' 3)]) \<and>
   (''a.txt'', sample_file ''aa'' 3) \<in> set [(''a.txt'', sample_file ''aa'' 3), (''img/b.txt'', sample_file ''aa'' 3)] \<and>
   (''img/b.txt'', sample_file ''aa'' 3) \<in> set [(''a.txt'', sample_file ''aa'' 3), (''img/b.txt'', sample_file ''aa'' 3)] \<and>
   ''a.txt'' \<noteq> ''img/b.txt'' \<and>
   hash (sample_file ''aa'' 3) \<in> set [''aa''] \<and>
   hash (sample_file ''aa'' 3) \<notin> set [''zz''] \<and>
   {#sample_file ''aa'' 3, sample_file ''aa'' 3#} \<subseteq>#
     mset (sortedFiles (map snd [(''a.txt'', sample_file ''aa'' 3), (''img/b.txt'', sample_file ''aa'' 3)]) [''aa'']) \<and>
   2 \<le> count (mset (map key (concat (map payload_of (batches sample_constants
          (sortedFiles (map snd [(''a.txt'', sample_file ''aa'' 3), (''img/b.txt'', sample_file ''aa'' 3)]) [''aa'']))))))
        (hash (sample_file ''aa'' 3)) \<and>
   sample_file ''aa'' 3 \<notin>
     set (sortedFiles (map snd [(''a.txt'', sample_file ''aa'' 3), (''img/b.txt'', sample_file ''aa'' 3)]) [''zz'']) \<and>
   hash (sample_file ''aa'' 3) \<notin> set (map key (concat (map payload_of (batches sample_constants
          (sortedFiles (map snd [(''a.txt'', sample_file ''aa'' 3), (''img/b.txt'', sample_file ''aa'' 3)]) [''zz''])))))"
proof -
  let ?fm = "[(''a.txt'', sample_file ''aa'' 3), (''img/b.txt'', sample_file ''aa'' 3)]"
  have h1: "distinct (map fst ?fm)" by simp
  have h2: "(''a.txt'', sample_file ''aa'' 3) \<in> set ?fm" by simp
  have h3: "(''img/b.txt'', sample_file ''aa'' 3) \<in> set ?fm" by simp
  have h4: "''a.txt'' \<noteq> ''img/b.txt''" by simp
  have h5: "hash (sample_file ''aa'' 3) = hash (sample_file ''aa'' 3)" by simp
  have m1: "hash (sample_file ''aa'' 3) \<in> set [''aa'']" by (simp add: sample_file_def)
  have m2: "hash (sample_file ''aa'' 3) \<notin> set [''zz'']" by (simp add: sample_file_def)
  from dedup_filter_is_per_fingerprint[OF h1 h2 h3 h4 h5, of "[''aa'']" sample_constants] m1
  have a: "{#sample_file ''aa'' 3, sample_file ''aa'' 3#} \<subseteq># mset (sortedFiles (map snd ?fm) [''aa'']) \<and>
      2 \<le> count (mset (map key (concat (map payload_of (batches sample_constants
          (sortedFiles (map snd ?fm) [''aa''])))))) (hash (sample_file ''aa'' 3))"
    by blast
  from dedup_filter_is_per_fingerprint[OF h1 h2 h3 h4 h5, of "[''zz'']" sample_constants] m2
  have b: "sample_file ''aa'' 3 \<notin> set (sortedFiles (map snd ?fm) [''zz'']) \<and>
      hash (sample_file ''aa'' 3) \<notin> set (map key (concat (map payload_of (batches sample_constants
          (sortedFiles (map snd ?fm) [''zz''])))))"
    by blast
  from h1 h2 h3 h4 m1 m2 a b show ?thesis by (intro conjI) blast+
qed


section \<open>The returned manifest\<close>

lemma fold_upd_map_of:
  "fold (\<lambda>(k, v) obj. obj(k \<mapsto> v)) xs m = m ++ map_of (rev xs)"
  by (induction xs arbitrary: m) (auto simp: map_add_def fun_eq_iff split: option.splits)

lemma manifest_of_lookup:
  assumes "distinct (map fst fm)"
  shows "manifest_of fm k = Some h \<longleftrightarrow> (\<exists>name file. (name, file) \<in> set fm \<and> k = ''/'' @ name \<and> h = hash file)"
proof -
  let ?xs = "map (\<lambda>(fileName, file). (''/'' @ fileName, hash file)) fm"
  have "map fst ?xs = map (\<lambda>n. ''/'' @ n) (map fst fm)"
    by (induction fm) auto
  then have d: "distinct (map fst (rev ?xs))"
    using assms by (simp add: rev_map[symmetric] distinct_map inj_on_def del: rev_map)
  have "manifest_of fm = map_of (rev ?xs)"
    by (simp add: manifest_of_def fold_upd_map_of del: map_map)
  then have "manifest_of fm k = Some h \<longleftrightarrow> (k, h) \<in> set (rev ?xs)"
    using d by (simp only: map_of_eq_Some_iff)
  then show ?thesis by auto
qed

lemma upload_files_result:
  "upload_files c queue net fm = (Inr manifest, tr) \<Longrightarrow> manifest = manifest_of fm"
  by (auto simp: upload_files_def finalize_def Let_def split: if_splits prod.splits sum.splits)



text \<open>
  Claim C2. When \<open>upload\<close> returns, the object it returns has, for every entry of the
  map built by the walk, the key of the entry prefixed with a slash, bound to the hash of
  that entry, and it has no other keys. The dedup answer plays no part: an entry whose
  hash is not reported missing is in the object like any other. This holds for every
  schedule of the callbacks of the walk and for every queue.
\<close>

theorem manifest_covers_index:
  assumes "upload c e sched queue net directory root = (Inr manifest, tr)"
  shows "\<exists>fileMap. walk e sched directory root [] 0 = Inr fileMap \<and>
           (\<forall>name file. (name, file) \<in> set fileMap \<longrightarrow> manifest (''/'' @ name) = Some (hash file)) \<and>
           dom manifest = (\<lambda>name. ''/'' @ name) ` fst ` set fileMap"
proof -
  from assms obtain fm where w: "walk e sched directory root [] 0 = Inr fm"
    and u: "upload_files c queue net fm = (Inr manifest, tr)"
    by (auto simp: upload_def split: sum.splits)
  have "distinct (map fst ([] :: fileMap))" by simp
  then have d: "distinct (map fst fm)" using w by (rule walk_distinct)
  from u have m: "manifest = manifest_of fm" by (rule upload_files_result)
  have "\<forall>name file. (name, file) \<in> set fm \<longrightarrow> manifest (''/'' @ name) = Some (hash file)"
    using manifest_of_lookup[OF d] m by blast
  moreover have "dom manifest = (\<lambda>name. ''/'' @ name) ` fst ` set fm"
  proof (rule set_eqI)
    fix k
    have "k \<in> dom manifest \<longleftrightarrow> (\<exists>h. manifest_of fm k = Some h)"
      using m by (simp add: dom_def)
    also have "\<dots> \<longleftrightarrow> (\<exists>name file. (name, file) \<in> set fm \<and> k = ''/'' @ name)"
      unfolding manifest_of_lookup[OF d] by blast
    also have "\<dots> \<longleftrightarrow> k \<in> (\<lambda>name. ''/'' @ name) ` fst ` set fm"
      by (simp add: image_iff Bex_def)
    finally show "k \<in> dom manifest \<longleftrightarrow> k \<in> (\<lambda>name. ''/'' @ name) ` fst ` set fm" .
  qed
  ultimately show ?thesis using w by blast
qed


theorem manifest_covers_index_witness:
  "fst (upload sample_constants sample_env first_come queue_in_turn (network_ok []) ''site'' sample_site) =
     Inr (manifest_of
       [(''a.txt'', \<lparr>content = ''YWJj'', contentType = ''text/plain'', sizeInBytes = 3, hash = ''59574a6a747874''\<rparr>),
        (''img/b.txt'', \<lparr>content = ''YWJj'', contentType = ''text/plain'', sizeInBytes = 3, hash = ''59574a6a747874''\<rparr>)]) \<and>
   manifest_of
       [(''a.txt'', \<lparr>content = ''YWJj'', contentType = ''text/plain'', sizeInBytes = 3, hash = ''59574a6a747874''\<rparr>),
        (''img/b.txt'', \<lparr>content = ''YWJj'', contentType = ''text/plain'', sizeInBytes = 3, hash = ''59574a6a747874''\<rparr>)]
     ''/img/b.txt'' = Some ''59574a6a747874'' \<and>
   dom (manifest_of
       [(''a.txt'', \<lparr>content = ''YWJj'', contentType = ''text/plain'', sizeInBytes = 3, hash = ''59574a6a747874''\<rparr>),
        (''img/b.txt'', \<lparr>content = ''YWJj'', contentType = ''text/plain'', sizeInBytes = 3, hash = ''59574a6a747874''\<rparr>)]) =
     {''/a.txt'', ''/img/b.txt''}"
proof -
  let ?fm = "[(''a.txt'', \<lparr>content = ''YWJj'', contentType = ''text/plain'', sizeInBytes = 3, hash = ''59574a6a747874''\<rparr>),
        (''img/b.txt'', \<lparr>content = ''YWJj'', contentType = ''text/plain'', sizeInBytes = 3, hash = ''59574a6a747874''\<rparr>)]"
  let ?run = "upload sample_constants sample_env first_come queue_in_turn (network_ok []) ''site'' sample_site"
  have "fst ?run = fst (upload_files sample_constants queue_in_turn (network_ok []) ?fm)"
    by (simp add: upload_def walk_sample_site)
  then have r: "fst ?run = Inr (manifest_of ?fm)"
    by (simp add: upload_files_ok)
  then have h: "?run = (Inr (manifest_of ?fm), snd ?run)"
    by (metis prod.collapse)
  from manifest_covers_index[OF h] walk_sample_site
  have "(\<forall>name file. (name, file) \<in> set ?fm \<longrightarrow> manifest_of ?fm (''/'' @ name) = Some (hash file)) \<and>
        dom (manifest_of ?fm) = (\<lambda>name. ''/'' @ name) ` fst ` set ?fm"
    by simp
  then have "manifest_of ?fm ''/img/b.txt'' = Some ''59574a6a747874''"
    and "dom (manifest_of ?fm) = {''/a.txt'', ''/img/b.txt''}"
    by auto
  with r show ?thesis by simp
qed


section \<open>The fingerprint\<close>

text \<open>
  Claim C3. An entry that the indexer stores for a file with the bytes \<open>bytes\<close> has as
  its hash the first 32 characters of the hex text of the hash of the base64 text of
  \<open>bytes\<close> followed by the extension of the entry's name. Every entry of an index,
  in whatever order the callbacks of the walk ended, has
  the hash so computed from its content and the extension of its key, so two entries with
  the same content and the same extension have the same hash; the fingerprint is a
  function of the bytes and the extension alone. With the same bytes, two different
  extensions give two different inputs to the hash.
\<close>

theorem fingerprint_of_content_and_extension:
  "(stat child = Some st \<longrightarrow> \<not> isDirectory st \<longrightarrow> readFile child = Some bytes \<longrightarrow>
      file \<notin> set IGNORE_LIST \<longrightarrow> st_size st \<le> 25 * 1024 * 1024 \<longrightarrow>
      visit e dir file child fm depth =
        Inr ([], Map_set (name_of dir file depth)
           \<lparr>content = toString_base64 bytes,
            contentType = contentType_of e (name_of dir file depth),
            sizeInBytes = st_size st,
            hash = take 32 (toString_hex (blake3_hash e
                     (toString_base64 bytes @ extension_of (name_of dir file depth))))\<rparr> fm)) \<and>
   (walk e sched directory root [] 0 = Inr fileMap \<longrightarrow>
      (\<forall>(name, r) \<in> set fileMap.
          hash r = take 32 (toString_hex (blake3_hash e (content r @ extension_of name)))) \<and>
      (\<forall>(name1, r1) \<in> set fileMap. \<forall>(name2, r2) \<in> set fileMap.
          content r1 = content r2 \<longrightarrow> extension_of name1 = extension_of name2 \<longrightarrow> hash r1 = hash r2)) \<and>
   (extension \<noteq> extension' \<longrightarrow>
      toString_base64 bytes @ extension \<noteq> toString_base64 bytes @ extension')"
proof (intro conjI impI)
  assume "stat child = Some st" "\<not> isDirectory st" "readFile child = Some bytes"
    "file \<notin> set IGNORE_LIST" "st_size st \<le> 25 * 1024 * 1024"
  then show "visit e dir file child fm depth =
        Inr ([], Map_set (name_of dir file depth)
           \<lparr>content = toString_base64 bytes,
            contentType = contentType_of e (name_of dir file depth),
            sizeInBytes = st_size st,
            hash = take 32 (toString_hex (blake3_hash e
                     (toString_base64 bytes @ extension_of (name_of dir file depth))))\<rparr> fm)"
    by (simp add: visit_regular fingerprint_def)
next
  assume w: "walk e sched directory root [] 0 = Inr fileMap"
  have "\<forall>(name, r) \<in> set ([] :: fileMap). hash r = fingerprint e (content r) (extension_of name)"
    by simp
  from walk_hashes[OF this w]
  show inv: "\<forall>(name, r) \<in> set fileMap.
          hash r = take 32 (toString_hex (blake3_hash e (content r @ extension_of name)))"
    by (simp add: fingerprint_def)
  show "\<forall>(name1, r1) \<in> set fileMap. \<forall>(name2, r2) \<in> set fileMap.
          content r1 = content r2 \<longrightarrow> extension_of name1 = extension_of name2 \<longrightarrow> hash r1 = hash r2"
  proof clarify
    fix n1 r1 n2 r2
    assume a: "(n1, r1) \<in> set fileMap" "(n2, r2) \<in> set fileMap"
      "content r1 = content r2" "extension_of n1 = extension_of n2"
    from inv a(1) have "hash r1 = take 32 (toString_hex (blake3_hash e (content r1 @ extension_of n1)))"
      by auto
    moreover from inv a(2)
    have "hash r2 = take 32 (toString_hex (blake3_hash e (content r2 @ extension_of n2)))"
      by auto
    ultimately show "hash r1 = hash r2" using a(3,4) by simp
  qed
next
  assume "extension \<noteq> extension'"
  then show "toString_base64 bytes @ extension \<noteq> toString_base64 bytes @ extension'"
    by simp
qed


theorem fingerprint_of_content_and_extension_witness:
  "stat (RegularFile 3 [0x61, 0x62, 0x63]) = Some \<lparr>isSymbolicLink = False, isDirectory = False, st_size = 3\<rparr> \<and>
   \<not> isDirectory \<lparr>isSymbolicLink = False, isDirectory = False, st_size = 3\<rparr> \<and>
   readFile (RegularFile 3 [0x61, 0x62, 0x63]) = Some [0x61, 0x62, 0x63] \<and>
   ''b.txt'' \<notin> set IGNORE_LIST \<and>
   st_size \<lparr>isSymbolicLink = False, isDirectory = False, st_size = 3\<rparr> \<le> 25 * 1024 * 1024 \<and>
   visit sample_env ''site/img'' ''b.txt'' (RegularFile 3 [0x61, 0x62, 0x63]) [] 1 =
     Inr ([], [(''img/b.txt'', \<lparr>content = ''YWJj'', contentType = ''text/plain'', sizeInBytes = 3,
                           hash = ''59574a6a747874''\<rparr>)]) \<and>
   walk sample_env first_come ''site'' sample_site [] 0 =
     Inr [(''a.txt'', \<lparr>content = ''YWJj'', contentType = ''text/plain'', sizeInBytes = 3, hash = ''59574a6a747874''\<rparr>),
          (''img/b.txt'', \<lparr>content = ''YWJj'', contentType = ''text/plain'', sizeInBytes = 3, hash = ''59574a6a747874''\<rparr>)] \<and>
   list_all (\<lambda>(name, r). hash r = take 32 (toString_hex (blake3_hash sample_env (content r @ extension_of name))))
     [(''a.txt'', \<lparr>content = ''YWJj'', contentType = ''text/plain'', sizeInBytes = 3, hash = ''59574a6a747874''\<rparr>),
      (''img/b.txt'', \<lparr>content = ''YWJj'', contentType = ''text/plain'', sizeInBytes = 3, hash = ''59574a6a747874''\<rparr>)] \<and>
   ''txt'' \<noteq> ''png'' \<and>
   toString_base64 [0x61, 0x62, 0x63] @ ''txt'' \<noteq> toString_base64 [0x61, 0x62, 0x63] @ ''png''"
proof -
  let ?st = "\<lparr>isSymbolicLink = False, isDirectory = False, st_size = 3\<rparr>"
  let ?bytes = "[0x61, 0x62, 0x63] :: 8 word list"
  let ?fm = "[(''a.txt'', \<lparr>content = ''YWJj'', contentType = ''text/plain'', sizeInBytes = 3, hash = ''59574a6a747874''\<rparr>),
      (''img/b.txt'', \<lparr>content = ''YWJj'', contentType = ''text/plain'', sizeInBytes = 3, hash = ''59574a6a747874''\<rparr>)]"
  have h1: "stat (RegularFile 3 ?bytes) = Some ?st" by simp
  have h2: "\<not> isDirectory ?st" by simp
  have h3: "readFile (RegularFile 3 ?bytes) = Some ?bytes" by simp
  have h4: "''b.txt'' \<notin> set IGNORE_LIST" by (simp add: IGNORE_LIST_def)
  have h5: "st_size ?st \<le> 25 * 1024 * 1024" by simp
  have h6: "''txt'' \<noteq> ''png''" by simp
  note inst = fingerprint_of_content_and_extension[of "RegularFile 3 ?bytes" ?st ?bytes "''b.txt''"
      sample_env "''site/img''" "[]" 1 first_come "''site''" sample_site ?fm "''txt''" "''png''"]
  have n: "name_of ''site/img'' ''b.txt'' (Suc 0) = ''img/b.txt''"
    by (simp add: name_of_def join_def normalize_def sep_def)
  have x: "extension_of ''img/b.txt'' = ''txt''"
    by (simp add: extension_of_def extname_def basename_def)
  have b: "toString_base64 ?bytes = ''YWJj''"
    by (simp add: base64_digit_def)
  have d: "toString_hex (blake3_hash sample_env ''YWJjtxt'') = ''59574a6a747874''"
    by (simp add: sample_env_def toString_hex_def hex_digit_def)
  have c: "contentType_of sample_env ''img/b.txt'' = ''text/plain''"
    by (simp add: contentType_of_def sample_env_def extname_def basename_def)
  from inst h1 h2 h3 h4 h5
  have "visit sample_env ''site/img'' ''b.txt'' (RegularFile 3 ?bytes) [] 1 =
     Inr ([], [(''img/b.txt'', \<lparr>content = ''YWJj'', contentType = ''text/plain'', sizeInBytes = 3,
                           hash = ''59574a6a747874''\<rparr>)])"
    by (simp add: n x b d c Map_set_def base64_digit_def)
  moreover from inst walk_sample_site
  have "list_all (\<lambda>(name, r). hash r = take 32 (toString_hex (blake3_hash sample_env (content r @ extension_of name)))) ?fm"
    unfolding list_all_iff by blast
  moreover from inst h6 have "toString_base64 ?bytes @ ''txt'' \<noteq> toString_base64 ?bytes @ ''png''"
    by blast
  ultimately show ?thesis using h1 h2 h3 h4 h5 h6 walk_sample_site by (intro conjI)
qed


section \<open>The limits checked before any request\<close>

text \<open>
  Claim C6. A walk that yields a map of more than 20000 entries ends \<open>upload\<close> with
  the fatal error before any request is made (the trace of the run is empty), and so does
  a walk that fails. A file whose size is at most \<open>25 * 1024 * 1024\<close> bytes, the
  limit included, is stored in the map; a file above it, from one byte on, fails the walk
  with an error that carries the name of the file and its size, and \<open>upload\<close> ends
  with that error and an empty trace. This holds for every schedule of the callbacks of
  the walk.
\<close>

theorem preflight_limits:
  "(walk e sched directory root [] 0 = Inr fileMap \<longrightarrow> 20000 < length fileMap \<longrightarrow>
      upload c e sched queue net directory root = (Inl TooManyFiles, [])) \<and>
   (walk e sched directory root [] 0 = Inl err \<longrightarrow> upload c e sched queue net directory root = (Inl err, [])) \<and>
   (file \<notin> set IGNORE_LIST \<longrightarrow> sz \<le> 25 * 1024 * 1024 \<longrightarrow>
      visit e dir file (RegularFile sz bytes) fm depth =
        Inr ([], Map_set (name_of dir file depth)
           \<lparr>content = toString_base64 bytes,
            contentType = contentType_of e (name_of dir file depth),
            sizeInBytes = sz,
            hash = fingerprint e (toString_base64 bytes) (extension_of (name_of dir file depth))\<rparr> fm)) \<and>
   (file \<notin> set IGNORE_LIST \<longrightarrow> 25 * 1024 * 1024 < sz \<longrightarrow>
      visit e dir file (RegularFile sz bytes) fm depth = Inl (FileTooLarge (name_of dir file depth) sz) \<and>
      upload c e sched queue net directory (Directory [(file, RegularFile sz bytes)]) = (Inl (FileTooLarge file sz), []))"
proof (intro conjI impI)
  assume "walk e sched directory root [] 0 = Inr fileMap" "20000 < length fileMap"
  then show "upload c e sched queue net directory root = (Inl TooManyFiles, [])"
    by (simp add: upload_def upload_files_def)
next
  assume "walk e sched directory root [] 0 = Inl err"
  then show "upload c e sched queue net directory root = (Inl err, [])"
    by (simp add: upload_def)
next
  assume "file \<notin> set IGNORE_LIST" "sz \<le> 25 * 1024 * 1024"
  then show "visit e dir file (RegularFile sz bytes) fm depth =
        Inr ([], Map_set (name_of dir file depth)
           \<lparr>content = toString_base64 bytes,
            contentType = contentType_of e (name_of dir file depth),
            sizeInBytes = sz,
            hash = fingerprint e (toString_base64 bytes) (extension_of (name_of dir file depth))\<rparr> fm)"
    by (simp add: visit_regular[where st="\<lparr>isSymbolicLink = False, isDirectory = False, st_size = sz\<rparr>" and bytes=bytes])
next
  assume a: "file \<notin> set IGNORE_LIST" "25 * 1024 * 1024 < sz"
  then show v: "visit e dir file (RegularFile sz bytes) fm depth = Inl (FileTooLarge (name_of dir file depth) sz)"
    by (simp add: visit_regular[where st="\<lparr>isSymbolicLink = False, isDirectory = False, st_size = sz\<rparr>" and bytes=bytes])
next
  assume a: "file \<notin> set IGNORE_LIST" "25 * 1024 * 1024 < sz"
  then have "visit e directory file (RegularFile sz bytes) [] 0 = Inl (FileTooLarge file sz)"
    by (simp add: visit_regular[where st="\<lparr>isSymbolicLink = False, isDirectory = False, st_size = sz\<rparr>" and bytes=bytes] name_of_def)
  then have "walk e sched directory (Directory [(file, RegularFile sz bytes)]) [] 0 = Inl (FileTooLarge file sz)"
    by (simp add: walk_Directory callbacks_def
          Promise_all_step[of "[(directory, file, RegularFile sz bytes, 0)]" sched directory "file" "RegularFile sz bytes" 0])
  then show "upload c e sched queue net directory (Directory [(file, RegularFile sz bytes)]) = (Inl (FileTooLarge file sz), [])"
    by (simp add: upload_def)
qed

theorem preflight_limits_witness:
  "(\<exists>fileMap. walk sample_env first_come ''site''
        (Directory (map (\<lambda>n. (replicate (Suc n) (CHR ''a''), RegularFile 0 [])) [0..<20001])) [] 0 = Inr fileMap \<and>
      20000 < length fileMap) \<and>
   upload sample_constants sample_env first_come queue_in_turn (network_ok []) ''site''
        (Directory (map (\<lambda>n. (replicate (Suc n) (CHR ''a''), RegularFile 0 [])) [0..<20001])) =
     (Inl TooManyFiles, []) \<and>
   ''big.bin'' \<notin> set IGNORE_LIST \<and>
   visit sample_env ''site'' ''big.bin'' (RegularFile (25 * 1024 * 1024) [0x61]) [] 0 =
     Inr ([], [(''big.bin'', \<lparr>content = ''YQ=='', contentType = ''application/octet-stream'',
                         sizeInBytes = 26214400, hash = ''59513d3d62696e''\<rparr>)]) \<and>
   visit sample_env ''site'' ''big.bin'' (RegularFile (25 * 1024 * 1024 + 1) [0x61]) [] 0 =
     Inl (FileTooLarge ''big.bin'' 26214401) \<and>
   upload sample_constants sample_env first_come queue_in_turn (network_ok []) ''site''
        (Directory [(''big.bin'', RegularFile (25 * 1024 * 1024 + 1) [0x61])]) =
     (Inl (FileTooLarge ''big.bin'' 26214401), [])"
proof -
  let ?many = "Directory (map (\<lambda>n. (replicate (Suc n) (CHR ''a''), RegularFile 0 [])) [0..<20001])"
  from walk_many_files[of sample_env first_come "''site''" 20001]
  obtain fileMap where both: "walk sample_env first_come ''site'' ?many [] 0 = Inr fileMap \<and> length fileMap = 20001" ..
  from both have w: "walk sample_env first_come ''site'' ?many [] 0 = Inr fileMap" by (rule conjunct1)
  from both have l: "length fileMap = 20001" by (rule conjunct2)
  have big: "20000 < length fileMap" by (simp add: l)
  have a: "\<exists>fileMap. walk sample_env first_come ''site'' ?many [] 0 = Inr fileMap \<and> 20000 < length fileMap"
    using w big by (intro exI[of _ fileMap] conjI)
  from preflight_limits[of sample_env first_come "''site''" ?many fileMap sample_constants queue_in_turn "network_ok []"]
  have "walk sample_env first_come ''site'' ?many [] 0 = Inr fileMap \<longrightarrow> 20000 < length fileMap \<longrightarrow>
      upload sample_constants sample_env first_come queue_in_turn (network_ok []) ''site'' ?many = (Inl TooManyFiles, [])"
    by (rule conjunct1)
  then have b: "upload sample_constants sample_env first_come queue_in_turn (network_ok []) ''site'' ?many = (Inl TooManyFiles, [])"
    using w big by (elim impE)
  have ni: "''big.bin'' \<notin> set IGNORE_LIST" by (simp add: IGNORE_LIST_def)
  have n: "name_of ''site'' ''big.bin'' 0 = ''big.bin''" by (simp add: name_of_def)
  have x: "extension_of ''big.bin'' = ''bin''" by (simp add: extension_of_def extname_def basename_def)
  have ct: "contentType_of sample_env ''big.bin'' = ''application/octet-stream''"
    by (simp add: contentType_of_def sample_env_def extname_def basename_def)
  have fp: "fingerprint sample_env ''YQ=='' ''bin'' = ''59513d3d62696e''"
    by (simp add: fingerprint_def sample_env_def toString_hex_def hex_digit_def)
  note inst = preflight_limits[of sample_env first_come "''site''" "Directory []" "[]" sample_constants queue_in_turn "network_ok []" TooManyFiles
      "''big.bin''" _ "''site''" "[0x61]" "[]" 0]
  have c: "visit sample_env ''site'' ''big.bin'' (RegularFile (25 * 1024 * 1024) [0x61]) [] 0 =
     Inr ([], [(''big.bin'', \<lparr>content = ''YQ=='', contentType = ''application/octet-stream'',
                         sizeInBytes = 26214400, hash = ''59513d3d62696e''\<rparr>)])"
    using inst[of "25 * 1024 * 1024"] ni by (simp add: n x ct fp Map_set_def base64_digit_def)
  have d: "visit sample_env ''site'' ''big.bin'' (RegularFile (25 * 1024 * 1024 + 1) [0x61]) [] 0 =
       Inl (FileTooLarge ''big.bin'' 26214401) \<and>
     upload sample_constants sample_env first_come queue_in_turn (network_ok []) ''site''
        (Directory [(''big.bin'', RegularFile (25 * 1024 * 1024 + 1) [0x61])]) =
       (Inl (FileTooLarge ''big.bin'' 26214401), [])"
    using inst[of "25 * 1024 * 1024 + 1"] ni by (simp add: n)
  from d have d1: "visit sample_env ''site'' ''big.bin'' (RegularFile (25 * 1024 * 1024 + 1) [0x61]) [] 0 =
       Inl (FileTooLarge ''big.bin'' 26214401)"
    by (rule conjunct1)
  from d have d2: "upload sample_constants sample_env first_come queue_in_turn (network_ok []) ''site''
        (Directory [(''big.bin'', RegularFile (25 * 1024 * 1024 + 1) [0x61])]) =
       (Inl (FileTooLarge ''big.bin'' 26214401), [])"
    by (rule conjunct2)
  from a b ni c d1 d2 show ?thesis by (intro conjI)
qed


section \<open>Symbolic links\<close>

text \<open>
  Claim C8. The claim does not hold of the code. \<open>walk\<close> tests \<open>isSymbolicLink()\<close> on the
  result of \<open>stat\<close>, which describes the target of a link and not the link, so the test
  never succeeds: an entry that is a link is visited as its target is. In the directory
  below, the link \<open>link.txt\<close> to a file and the file under the link \<open>linkdir\<close> to a
  directory are both in the index (the walk is run with the callbacks ending in the order
  they were started).
\<close>

theorem symlink_entries_are_followed:
  "visit e dir file (SymbolicLink (Some target)) fm depth = visit e dir file target fm depth \<and>
   walk sample_env first_come ''site''
     (Directory [(''a.txt'', RegularFile 3 [0x61, 0x62, 0x63]),
                 (''link.txt'', SymbolicLink (Some (RegularFile 1 [0x7a]))),
                 (''linkdir'', SymbolicLink (Some (Directory [(''c.txt'', RegularFile 1 [0x7a])])))]) [] 0 =
     Inr [(''a.txt'', \<lparr>content = ''YWJj'', contentType = ''text/plain'', sizeInBytes = 3, hash = ''59574a6a747874''\<rparr>),
          (''link.txt'', \<lparr>content = ''eg=='', contentType = ''text/plain'', sizeInBytes = 1, hash = ''65673d3d747874''\<rparr>),
          (''linkdir/c.txt'', \<lparr>content = ''eg=='', contentType = ''text/plain'', sizeInBytes = 1, hash = ''65673d3d747874''\<rparr>)]"
proof
  show "visit e dir file (SymbolicLink (Some target)) fm depth = visit e dir file target fm depth"
    by (rule visit_SymbolicLink)
next
  have i: "''a.txt'' \<notin> set IGNORE_LIST" "''link.txt'' \<notin> set IGNORE_LIST"
    "''linkdir'' \<notin> set IGNORE_LIST" "''c.txt'' \<notin> set IGNORE_LIST"
    by (simp_all add: IGNORE_LIST_def)
  have j: "join ''site'' ''linkdir'' = ''site/linkdir''"
    by (simp add: join_def normalize_def)
  have n: "name_of ''site'' ''a.txt'' 0 = ''a.txt''" "name_of ''site'' ''link.txt'' 0 = ''link.txt''"
    "name_of ''site/linkdir'' ''c.txt'' (Suc 0) = ''linkdir/c.txt''"
    by (simp_all add: name_of_def join_def normalize_def sep_def)
  have x: "extension_of ''a.txt'' = ''txt''" "extension_of ''link.txt'' = ''txt''"
    "extension_of ''linkdir/c.txt'' = ''txt''"
    by (simp_all add: extension_of_def extname_def basename_def)
  have c: "contentType_of sample_env ''a.txt'' = ''text/plain''"
    "contentType_of sample_env ''link.txt'' = ''text/plain''"
    "contentType_of sample_env ''linkdir/c.txt'' = ''text/plain''"
    by (simp_all add: contentType_of_def sample_env_def extname_def basename_def)
  have b: "toString_base64 [0x61, 0x62, 0x63] = ''YWJj''" "toString_base64 [0x7a] = ''eg==''"
    by (simp_all add: base64_digit_def)
  have h: "fingerprint sample_env ''YWJj'' ''txt'' = ''59574a6a747874''"
    "fingerprint sample_env ''eg=='' ''txt'' = ''65673d3d747874''"
    by (simp_all add: fingerprint_def sample_env_def toString_hex_def hex_digit_def)
  show "walk sample_env first_come ''site''
     (Directory [(''a.txt'', RegularFile 3 [0x61, 0x62, 0x63]),
                 (''link.txt'', SymbolicLink (Some (RegularFile 1 [0x7a]))),
                 (''linkdir'', SymbolicLink (Some (Directory [(''c.txt'', RegularFile 1 [0x7a])])))]) [] 0 =
     Inr [(''a.txt'', \<lparr>content = ''YWJj'', contentType = ''text/plain'', sizeInBytes = 3, hash = ''59574a6a747874''\<rparr>),
          (''link.txt'', \<lparr>content = ''eg=='', contentType = ''text/plain'', sizeInBytes = 1, hash = ''65673d3d747874''\<rparr>),
          (''linkdir/c.txt'', \<lparr>content = ''eg=='', contentType = ''text/plain'', sizeInBytes = 1, hash = ''65673d3d747874''\<rparr>)]"
    by (simp add: walk_Directory callbacks_def Promise_all_first_come Promise_all_Nil visit_SymbolicLink visit_Directory visit_RegularFile i j n x c b h
          Map_set_def del: toString_base64.simps)
qed


section \<open>The keys of the index\<close>

text \<open>
  Claim C9. The claim does not hold of the code. Below the root, \<open>walk\<close> takes the path
  joined from the root argument and drops its first segment, which is the whole root only
  when the root argument is a single segment. With the root \<open>dist/site\<close> the file
  \<open>img/b.txt\<close> gets the key \<open>site/img/b.txt\<close>; with the root \<open>.\<close>, which \<open>join\<close>
  normalizes away, the files \<open>x/f.txt\<close> and \<open>y/f.txt\<close> both get the key \<open>f.txt\<close> and
  the map keeps one of them. The first two walks are run with the callbacks ending in the
  order they were started, where the record kept is the one of \<open>y/f.txt\<close>; the last
  statement is for every schedule: the two files always leave one entry.
\<close>

theorem nested_key_drops_first_segment_only:
  "walk sample_env first_come ''dist/site'' sample_site [] 0 =
     Inr [(''a.txt'', \<lparr>content = ''YWJj'', contentType = ''text/plain'', sizeInBytes = 3, hash = ''59574a6a747874''\<rparr>),
          (''site/img/b.txt'', \<lparr>content = ''YWJj'', contentType = ''text/plain'', sizeInBytes = 3, hash = ''59574a6a747874''\<rparr>)] \<and>
   walk sample_env first_come ''.''
     (Directory [(''x'', Directory [(''f.txt'', RegularFile 1 [0x61])]),
                 (''y'', Directory [(''f.txt'', RegularFile 1 [0x62])])]) [] 0 =
     Inr [(''f.txt'', \<lparr>content = ''Yg=='', contentType = ''text/plain'', sizeInBytes = 1, hash = ''59673d3d747874''\<rparr>)] \<and>
   (\<exists>r. walk sample_env sched ''.''
     (Directory [(''x'', Directory [(''f.txt'', RegularFile 1 [0x61])]),
                 (''y'', Directory [(''f.txt'', RegularFile 1 [0x62])])]) [] 0 =
     Inr [(''f.txt'', r)])"
proof (intro conjI)
  have i: "''a.txt'' \<notin> set IGNORE_LIST" "''img'' \<notin> set IGNORE_LIST" "''b.txt'' \<notin> set IGNORE_LIST"
    "''.git'' \<in> set IGNORE_LIST"
    by (simp_all add: IGNORE_LIST_def)
  have g: "visit sample_env ''dist/site'' ''.git'' (Directory [(''HEAD'', RegularFile 1 [0x0A])]) fm 0 = Inr ([], fm)" for fm
    using i(4) by (rule visit_ignored) simp
  have j: "join ''dist/site'' ''img'' = ''dist/site/img''"
    by (simp add: join_def normalize_def)
  have n: "name_of ''dist/site'' ''a.txt'' 0 = ''a.txt''"
    "name_of ''dist/site/img'' ''b.txt'' (Suc 0) = ''site/img/b.txt''"
    by (simp_all add: name_of_def join_def normalize_def sep_def)
  have x: "extension_of ''a.txt'' = ''txt''" "extension_of ''site/img/b.txt'' = ''txt''"
    by (simp_all add: extension_of_def extname_def basename_def)
  have c: "contentType_of sample_env ''a.txt'' = ''text/plain''"
    "contentType_of sample_env ''site/img/b.txt'' = ''text/plain''"
    by (simp_all add: contentType_of_def sample_env_def extname_def basename_def)
  have b: "toString_base64 [0x61, 0x62, 0x63] = ''YWJj''"
    by (simp add: base64_digit_def)
  have h: "fingerprint sample_env ''YWJj'' ''txt'' = ''59574a6a747874''"
    by (simp add: fingerprint_def sample_env_def toString_hex_def hex_digit_def)
  show "walk sample_env first_come ''dist/site'' sample_site [] 0 =
     Inr [(''a.txt'', \<lparr>content = ''YWJj'', contentType = ''text/plain'', sizeInBytes = 3, hash = ''59574a6a747874''\<rparr>),
          (''site/img/b.txt'', \<lparr>content = ''YWJj'', contentType = ''text/plain'', sizeInBytes = 3, hash = ''59574a6a747874''\<rparr>)]"
    by (simp add: sample_site_def walk_Directory callbacks_def Promise_all_first_come Promise_all_Nil visit_Directory visit_RegularFile g i j n x c b h
          Map_set_def del: toString_base64.simps)
next
  have i: "''x'' \<notin> set IGNORE_LIST" "''y'' \<notin> set IGNORE_LIST" "''f.txt'' \<notin> set IGNORE_LIST"
    by (simp_all add: IGNORE_LIST_def)
  have j: "join ''.'' ''x'' = ''x''" "join ''.'' ''y'' = ''y''"
    by (simp_all add: join_def normalize_def)
  have n: "name_of ''x'' ''f.txt'' (Suc 0) = ''f.txt''" "name_of ''y'' ''f.txt'' (Suc 0) = ''f.txt''"
    by (simp_all add: name_of_def join_def normalize_def sep_def)
  have x: "extension_of ''f.txt'' = ''txt''"
    by (simp add: extension_of_def extname_def basename_def)
  have c: "contentType_of sample_env ''f.txt'' = ''text/plain''"
    by (simp add: contentType_of_def sample_env_def extname_def basename_def)
  have b: "toString_base64 [0x61] = ''YQ==''" "toString_base64 [0x62] = ''Yg==''"
    by (simp_all add: base64_digit_def)
  have h: "fingerprint sample_env ''YQ=='' ''txt'' = ''59513d3d747874''"
    "fingerprint sample_env ''Yg=='' ''txt'' = ''59673d3d747874''"
    by (simp_all add: fingerprint_def sample_env_def toString_hex_def hex_digit_def)
  show "walk sample_env first_come ''.''
     (Directory [(''x'', Directory [(''f.txt'', RegularFile 1 [0x61])]),
                 (''y'', Directory [(''f.txt'', RegularFile 1 [0x62])])]) [] 0 =
     Inr [(''f.txt'', \<lparr>content = ''Yg=='', contentType = ''text/plain'', sizeInBytes = 1, hash = ''59673d3d747874''\<rparr>)]"
    by (simp add: walk_Directory callbacks_def Promise_all_first_come Promise_all_Nil visit_Directory visit_RegularFile i j n x c b h Map_set_def
          del: toString_base64.simps)
next
  have i: "''x'' \<notin> set IGNORE_LIST" "''y'' \<notin> set IGNORE_LIST" "''f.txt'' \<notin> set IGNORE_LIST"
    by (simp_all add: IGNORE_LIST_def)
  have j: "join ''.'' ''x'' = ''x''" "join ''.'' ''y'' = ''y''"
    by (simp_all add: join_def normalize_def)
  have n: "name_of ''x'' ''f.txt'' (Suc 0) = ''f.txt''" "name_of ''y'' ''f.txt'' (Suc 0) = ''f.txt''"
    by (simp_all add: name_of_def join_def normalize_def sep_def)
  show "\<exists>r. walk sample_env sched ''.''
     (Directory [(''x'', Directory [(''f.txt'', RegularFile 1 [0x61])]),
                 (''y'', Directory [(''f.txt'', RegularFile 1 [0x62])])]) [] 0 =
     Inr [(''f.txt'', r)]"
    by (simp add: walk_Directory callbacks_def Promise_all_one Promise_all_two Promise_all_Nil
          visit_Directory visit_RegularFile i j n Map_set_def del: toString_base64.simps)
qed


section \<open>The retry policy of a batch\<close>






section \<open>The commit call of the finalizer\<close>

text \<open>
  Claim C7. The finalizer returns the manifest of the whole index whatever the commit
  requests answer. When the first commit request succeeds it is the only one. When it
  fails, a timer of 1000 ms follows, then a token request exactly when the code of the
  failure is 8000013, then one second commit request, carrying the new token if one was
  fetched; when the second request fails as well, the only further event is the warning.
  (When the token request itself fails, the warning follows at once.) The finalizer is
  the end of \<open>upload\<close>, and its result is the object that \<open>upload\<close> returns: no
  answer to a commit request makes it throw.
\<close>

theorem commit_retried_once_then_warning:
  "fst (finalize net fm s) = manifest_of fm \<and>
   (upsert_hashes net (trace s) (jwt s) (map hash (map snd fm)) = Inr u \<longrightarrow>
      snd (finalize net fm s) = s\<lparr>trace := trace s @ [commit_request fm (jwt s)]\<rparr>) \<and>
   (upsert_hashes net (trace s) (jwt s) (map hash (map snd fm)) = Inl err \<longrightarrow>
    code err \<noteq> Some 8000013 \<longrightarrow>
      snd (finalize net fm s) =
        s\<lparr>trace := trace s @ [commit_request fm (jwt s), Timeout 1000, commit_request fm (jwt s)] @
             (case upsert_hashes net (trace s @ [commit_request fm (jwt s), Timeout 1000]) (jwt s)
                     (map hash (map snd fm)) of
                Inl err2 \<Rightarrow> [Warn] | Inr u2 \<Rightarrow> [])\<rparr>) \<and>
   (upsert_hashes net (trace s) (jwt s) (map hash (map snd fm)) = Inl err \<longrightarrow>
    code err = Some 8000013 \<longrightarrow>
    upload_token net (trace s @ [commit_request fm (jwt s), Timeout 1000]) = Inr token \<longrightarrow>
      snd (finalize net fm s) =
        s\<lparr>trace := trace s @ [commit_request fm (jwt s), Timeout 1000, Request UploadToken,
                               commit_request fm token] @
             (case upsert_hashes net (trace s @ [commit_request fm (jwt s), Timeout 1000, Request UploadToken])
                     token (map hash (map snd fm)) of
                Inl err2 \<Rightarrow> [Warn] | Inr u2 \<Rightarrow> []),
           jwt := token\<rparr>) \<and>
   (upsert_hashes net (trace s) (jwt s) (map hash (map snd fm)) = Inl err \<longrightarrow>
    code err = Some 8000013 \<longrightarrow>
    upload_token net (trace s @ [commit_request fm (jwt s), Timeout 1000]) = Inl err' \<longrightarrow>
      snd (finalize net fm s) =
        s\<lparr>trace := trace s @ [commit_request fm (jwt s), Timeout 1000, Request UploadToken, Warn]\<rparr>)"
proof (intro conjI impI)
  show "fst (finalize net fm s) = manifest_of fm"
    by (simp add: finalize_def split: prod.splits sum.splits)
next
  assume "upsert_hashes net (trace s) (jwt s) (map hash (map snd fm)) = Inr u"
  then show "snd (finalize net fm s) = s\<lparr>trace := trace s @ [commit_request fm (jwt s)]\<rparr>"
    by (simp add: finalize_def doUpsertHashes_def fetch_upsert_hashes_def log_event_def
          commit_request_def del: map_map)
next
  assume "upsert_hashes net (trace s) (jwt s) (map hash (map snd fm)) = Inl err"
    "code err \<noteq> Some 8000013"
  then show "snd (finalize net fm s) =
        s\<lparr>trace := trace s @ [commit_request fm (jwt s), Timeout 1000, commit_request fm (jwt s)] @
             (case upsert_hashes net (trace s @ [commit_request fm (jwt s), Timeout 1000]) (jwt s)
                     (map hash (map snd fm)) of
                Inl err2 \<Rightarrow> [Warn] | Inr u2 \<Rightarrow> [])\<rparr>"
    by (simp add: finalize_def doUpsertHashes_def fetch_upsert_hashes_def log_event_def
          setTimeout_def commit_request_def Let_def split: sum.splits del: map_map)
next
  assume "upsert_hashes net (trace s) (jwt s) (map hash (map snd fm)) = Inl err"
    "code err = Some 8000013"
    "upload_token net (trace s @ [commit_request fm (jwt s), Timeout 1000]) = Inr token"
  then show "snd (finalize net fm s) =
        s\<lparr>trace := trace s @ [commit_request fm (jwt s), Timeout 1000, Request UploadToken,
                               commit_request fm token] @
             (case upsert_hashes net (trace s @ [commit_request fm (jwt s), Timeout 1000, Request UploadToken])
                     token (map hash (map snd fm)) of
                Inl err2 \<Rightarrow> [Warn] | Inr u2 \<Rightarrow> []),
           jwt := token\<rparr>"
    by (simp add: finalize_def doUpsertHashes_def fetch_upsert_hashes_def log_event_def
          setTimeout_def fetchJwt_def commit_request_def Let_def split: sum.splits del: map_map)
next
  assume "upsert_hashes net (trace s) (jwt s) (map hash (map snd fm)) = Inl err"
    "code err = Some 8000013"
    "upload_token net (trace s @ [commit_request fm (jwt s), Timeout 1000]) = Inl err'"
  then show "snd (finalize net fm s) =
        s\<lparr>trace := trace s @ [commit_request fm (jwt s), Timeout 1000, Request UploadToken, Warn]\<rparr>"
    by (simp add: finalize_def doUpsertHashes_def fetch_upsert_hashes_def log_event_def
          setTimeout_def fetchJwt_def commit_request_def Let_def split: sum.splits del: map_map)
qed

theorem commit_retried_once_then_warning_witness:
  "fst (finalize (network_no_commit (ApiError (Some 8000013))) [(''a.txt'', sample_file ''aa'' 3)]
          \<lparr>jwt = ''token'', trace = []\<rparr>) =
     manifest_of [(''a.txt'', sample_file ''aa'' 3)] \<and>
   upsert_hashes (network_ok []) [] ''token'' [''aa''] = Inr () \<and>
   snd (finalize (network_ok []) [(''a.txt'', sample_file ''aa'' 3)] \<lparr>jwt = ''token'', trace = []\<rparr>) =
     \<lparr>jwt = ''token'', trace = [Request (UpsertHashes ''token'' [''aa''])]\<rparr> \<and>
   upsert_hashes (network_no_commit (ApiError None)) [] ''token'' [''aa''] = Inl (ApiError None) \<and>
   code (ApiError None) \<noteq> Some 8000013 \<and>
   snd (finalize (network_no_commit (ApiError None)) [(''a.txt'', sample_file ''aa'' 3)]
          \<lparr>jwt = ''token'', trace = []\<rparr>) =
     \<lparr>jwt = ''token'',
        trace = [Request (UpsertHashes ''token'' [''aa'']), Timeout 1000,
                 Request (UpsertHashes ''token'' [''aa'']), Warn]\<rparr> \<and>
   upsert_hashes (network_no_commit (ApiError (Some 8000013))) [] ''token'' [''aa''] =
     Inl (ApiError (Some 8000013)) \<and>
   code (ApiError (Some 8000013)) = Some 8000013 \<and>
   upload_token (network_no_commit (ApiError (Some 8000013)))
       [Request (UpsertHashes ''token'' [''aa'']), Timeout 1000] = Inr ''fresh'' \<and>
   snd (finalize (network_no_commit (ApiError (Some 8000013))) [(''a.txt'', sample_file ''aa'' 3)]
          \<lparr>jwt = ''token'', trace = []\<rparr>) =
     \<lparr>jwt = ''fresh'',
        trace = [Request (UpsertHashes ''token'' [''aa'']), Timeout 1000, Request UploadToken,
                 Request (UpsertHashes ''fresh'' [''aa'']), Warn]\<rparr> \<and>
   upsert_hashes network_no_refresh [] ''token'' [''aa''] = Inl (ApiError (Some 8000013)) \<and>
   upload_token network_no_refresh [Request (UpsertHashes ''token'' [''aa'']), Timeout 1000] =
     Inl (ApiError None) \<and>
   snd (finalize network_no_refresh [(''a.txt'', sample_file ''aa'' 3)] \<lparr>jwt = ''token'', trace = []\<rparr>) =
     \<lparr>jwt = ''token'',
        trace = [Request (UpsertHashes ''token'' [''aa'']), Timeout 1000, Request UploadToken, Warn]\<rparr>"
proof -
  let ?fm = "[(''a.txt'', sample_file ''aa'' 3)]"
  let ?s = "\<lparr>jwt = ''token'', trace = []\<rparr>"
  let ?exp = "network_no_commit (ApiError (Some 8000013))"
  let ?plain = "network_no_commit (ApiError None)"
  have hs: "map hash (map snd ?fm) = [''aa'']" by (simp add: sample_file_def)
  have cr: "commit_request ?fm t = Request (UpsertHashes t [''aa''])" for t
    by (simp add: commit_request_def sample_file_def)
  have m: "fst (finalize ?exp ?fm ?s) = manifest_of ?fm"
    using commit_retried_once_then_warning[of ?exp ?fm ?s] by blast
  have a1: "upsert_hashes (network_ok []) (trace ?s) (jwt ?s) (map hash (map snd ?fm)) = Inr ()"
    by (simp add: network_ok_def)
  from commit_retried_once_then_warning[of "network_ok []" ?fm ?s "()"] a1
  have "snd (finalize (network_ok []) ?fm ?s) = ?s\<lparr>trace := trace ?s @ [commit_request ?fm (jwt ?s)]\<rparr>"
    by blast
  then have a: "snd (finalize (network_ok []) ?fm ?s) =
      \<lparr>jwt = ''token'', trace = [Request (UpsertHashes ''token'' [''aa''])]\<rparr>"
    by (simp add: cr)
  have b1: "upsert_hashes ?plain (trace ?s) (jwt ?s) (map hash (map snd ?fm)) = Inl (ApiError None)"
    by (simp add: network_no_commit_def)
  have b2: "code (ApiError None) \<noteq> Some 8000013" by simp
  from commit_retried_once_then_warning[of ?plain ?fm ?s _ "ApiError None"] b1 b2
  have "snd (finalize ?plain ?fm ?s) =
        ?s\<lparr>trace := trace ?s @ [commit_request ?fm (jwt ?s), Timeout 1000, commit_request ?fm (jwt ?s)] @
             (case upsert_hashes ?plain (trace ?s @ [commit_request ?fm (jwt ?s), Timeout 1000]) (jwt ?s)
                     (map hash (map snd ?fm)) of
                Inl err2 \<Rightarrow> [Warn] | Inr u2 \<Rightarrow> [])\<rparr>"
    by blast
  then have b: "snd (finalize ?plain ?fm ?s) =
     \<lparr>jwt = ''token'',
        trace = [Request (UpsertHashes ''token'' [''aa'']), Timeout 1000,
                 Request (UpsertHashes ''token'' [''aa'']), Warn]\<rparr>"
    by (simp add: cr network_no_commit_def)
  have c1: "upsert_hashes ?exp (trace ?s) (jwt ?s) (map hash (map snd ?fm)) = Inl (ApiError (Some 8000013))"
    by (simp add: network_no_commit_def)
  have c2: "code (ApiError (Some 8000013)) = Some 8000013" by simp
  have c3: "upload_token ?exp (trace ?s @ [commit_request ?fm (jwt ?s), Timeout 1000]) = Inr ''fresh''"
    by (simp add: network_no_commit_def)
  from commit_retried_once_then_warning[of ?exp ?fm ?s _ "ApiError (Some 8000013)" "''fresh''"] c1 c2 c3
  have "snd (finalize ?exp ?fm ?s) =
        ?s\<lparr>trace := trace ?s @ [commit_request ?fm (jwt ?s), Timeout 1000, Request UploadToken,
                               commit_request ?fm ''fresh''] @
             (case upsert_hashes ?exp (trace ?s @ [commit_request ?fm (jwt ?s), Timeout 1000, Request UploadToken])
                     ''fresh'' (map hash (map snd ?fm)) of
                Inl err2 \<Rightarrow> [Warn] | Inr u2 \<Rightarrow> []),
           jwt := ''fresh''\<rparr>"
    by blast
  then have c: "snd (finalize ?exp ?fm ?s) =
     \<lparr>jwt = ''fresh'',
        trace = [Request (UpsertHashes ''token'' [''aa'']), Timeout 1000, Request UploadToken,
                 Request (UpsertHashes ''fresh'' [''aa'']), Warn]\<rparr>"
    by (simp add: cr network_no_commit_def)
  have d1: "upsert_hashes network_no_refresh (trace ?s) (jwt ?s) (map hash (map snd ?fm)) =
      Inl (ApiError (Some 8000013))"
    by (simp add: network_no_refresh_def)
  have d3: "upload_token network_no_refresh (trace ?s @ [commit_request ?fm (jwt ?s), Timeout 1000]) =
      Inl (ApiError None)"
    by (simp add: network_no_refresh_def)
  from commit_retried_once_then_warning[of network_no_refresh ?fm ?s _ "ApiError (Some 8000013)" _ "ApiError None"]
    d1 c2 d3
  have "snd (finalize network_no_refresh ?fm ?s) =
        ?s\<lparr>trace := trace ?s @ [commit_request ?fm (jwt ?s), Timeout 1000, Request UploadToken, Warn]\<rparr>"
    by blast
  then have d: "snd (finalize network_no_refresh ?fm ?s) =
     \<lparr>jwt = ''token'',
        trace = [Request (UpsertHashes ''token'' [''aa'']), Timeout 1000, Request UploadToken, Warn]\<rparr>"
    by (simp add: cr)
  from a1 have a1': "upsert_hashes (network_ok []) [] ''token'' [''aa''] = Inr ()"
    by (simp add: sample_file_def)
  from b1 have b1': "upsert_hashes ?plain [] ''token'' [''aa''] = Inl (ApiError None)"
    by (simp add: sample_file_def)
  from c1 have c1': "upsert_hashes ?exp [] ''token'' [''aa''] = Inl (ApiError (Some 8000013))"
    by (simp add: sample_file_def)
  from c3 have c3': "upload_token ?exp [Request (UpsertHashes ''token'' [''aa'']), Timeout 1000] = Inr ''fresh''"
    by (simp add: cr)
  from d1 have d1': "upsert_hashes network_no_refresh [] ''token'' [''aa''] = Inl (ApiError (Some 8000013))"
    by (simp add: sample_file_def)
  from d3 have d3': "upload_token network_no_refresh [Request (UpsertHashes ''token'' [''aa'']), Timeout 1000] =
      Inl (ApiError None)"
    by (simp add: cr)
  from m a1' a b1' b2 b c1' c2 c3' c d1' d3' d show ?thesis by (intro conjI)
qed


end
